theory Spec2Isabelle
  imports Complex_Main "HOL-Library.Sublist"
begin

section \<open>Python values and exceptions\<close>

text \<open>
  Exceptions are values: every function that can raise returns \<open>py_error + 'a\<close>,
  with \<open>Inl\<close> for the exception. \<open>TranslationFailure\<close> stands for whatever the external
  translation service raises, \<open>SinkFailure\<close> for whatever the database raises on an
  insert, \<open>OSError\<close> for the failure of \<open>os.remove\<close> on a directory.
\<close>

datatype py_error =
    AttributeError
  | OverflowError
  | ValueError
  | OSError
  | TranslationFailure string
  | SinkFailure string

text \<open>
  A cell of a pandas DataFrame read from the CSV source: a missing field is the float
  \<open>NaN\<close>, text is a \<open>str\<close>, anything numeric is a number.
\<close>

datatype cell = NaN | Str string | Num real

text \<open>Python's \<open>int(x)\<close> on a finite float truncates towards zero.\<close>

definition py_int :: "real \<Rightarrow> int" where
  "py_int x = (if 0 \<le> x then \<lfloor>x\<rfloor> else \<lceil>x\<rceil>)"

section \<open>Chunk-size computation\<close>

text \<open>
  Both classes read the available memory from the operating system and one row's
  footprint from pandas; here they are inputs, in bytes. Floats are modelled as reals:
  rounding is not part of the model. A division by a numpy zero gives \<open>inf\<close> or \<open>nan\<close>,
  on which \<open>int\<close> raises \<open>OverflowError\<close> or \<open>ValueError\<close>.
\<close>

definition get_available_memory :: "int \<Rightarrow> real" where
  "get_available_memory available_memory_bytes =
     real_of_int available_memory_bytes / (1024 ^ 3)"

text \<open>
  \<open>DataLoader.calculate_chunk_size\<close>: \<open>row_bytes\<close> is the memory usage of the one-row
  read of the CSV file, \<open>n_rows\<close> the row count of the whole file.
\<close>

definition DataLoader_calculate_chunk_size ::
  "int \<Rightarrow> int \<Rightarrow> int \<Rightarrow> real \<Rightarrow> py_error + int" where
  "DataLoader_calculate_chunk_size available_memory_bytes row_bytes n_rows memory_fraction =
     (let available_memory_gb = get_available_memory available_memory_bytes;
          csv_size_bytes = row_bytes * n_rows;
          csv_size_gb = real_of_int csv_size_bytes / (1024 ^ 3)
      in if csv_size_gb < available_memory_gb then Inr n_rows
         else if row_bytes = 0 then
           (if (memory_fraction * available_memory_gb) * (1024 ^ 3) = 0
            then Inl ValueError else Inl OverflowError)
         else Inr (py_int ((memory_fraction * available_memory_gb) * (1024 ^ 3)
                            / real_of_int row_bytes)))"

text \<open>
  \<open>TranslatorModule.calculate_chunk_size\<close>: \<open>one_row_memory_usage_bytes\<close> is the memory
  usage of the one-row query on the table.
\<close>

definition TranslatorModule_calculate_chunk_size ::
  "int \<Rightarrow> real \<Rightarrow> int \<Rightarrow> py_error + int" where
  "TranslatorModule_calculate_chunk_size available_memory_bytes memory_fraction
       one_row_memory_usage_bytes =
     (let available_memory_gb = get_available_memory available_memory_bytes;
          allocated_memory_gb = memory_fraction * available_memory_gb;
          one_row_memory_usage_gb = real_of_int one_row_memory_usage_bytes / (1024 ^ 3)
      in if one_row_memory_usage_gb = 0 then
           (if allocated_memory_gb = 0 then Inl ValueError else Inl OverflowError)
         else let chunk_size = py_int (allocated_memory_gb / one_row_memory_usage_gb)
              in Inr (max chunk_size 1))"

section \<open>Strings\<close>

text \<open>
  A Python \<open>str\<close> is a \<open>string\<close>; a \<open>char\<close> stands for the code point of the same
  number, so the model covers the code points below 256 and the registered-trademark
  sign is \<open>CHR 0xAE\<close>. On that range \<open>isspace\<close> lists the characters that
  \<open>str.strip()\<close>, \<open>str.split()\<close> and the pattern \<open>\s\<close> treat as whitespace, and
  \<open>isdecimal\<close> those that the pattern \<open>\d\<close> matches.
\<close>

definition isspace :: "char \<Rightarrow> bool" where
  "isspace c \<longleftrightarrow> c \<in> set [CHR 0x09, CHR 0x0A, CHR 0x0B, CHR 0x0C, CHR 0x0D,
                          CHR 0x1C, CHR 0x1D, CHR 0x1E, CHR 0x1F, CHR 0x20, CHR 0x85, CHR 0xA0]"

definition isdecimal :: "char \<Rightarrow> bool" where
  "isdecimal c \<longleftrightarrow> c \<in> set ''0123456789''"

definition quote :: char where
  "quote = CHR 0x22"

definition lstrip :: "string \<Rightarrow> string" where
  "lstrip s = dropWhile isspace s"

definition rstrip :: "string \<Rightarrow> string" where
  "rstrip s = rev (dropWhile isspace (rev s))"

definition strip :: "string \<Rightarrow> string" where
  "strip s = rstrip (lstrip s)"

definition startswith_space :: "string \<Rightarrow> bool" where
  "startswith_space s \<longleftrightarrow> (case s of [] \<Rightarrow> False | x # _ \<Rightarrow> isspace x)"

definition endswith_space :: "string \<Rightarrow> bool" where
  "endswith_space s \<longleftrightarrow> (case rev s of [] \<Rightarrow> False | x # _ \<Rightarrow> isspace x)"

definition startswith :: "string \<Rightarrow> char \<Rightarrow> bool" where
  "startswith s c \<longleftrightarrow> (case s of [] \<Rightarrow> False | x # _ \<Rightarrow> x = c)"

definition endswith :: "string \<Rightarrow> char \<Rightarrow> bool" where
  "endswith s c \<longleftrightarrow> (case rev s of [] \<Rightarrow> False | x # _ \<Rightarrow> x = c)"

text \<open>
  \<open>re.search(r'\d+"$', s)\<close>: a quote with a digit before it, at the end of the string
  or, as \<open>$\<close> also matches there, just before a newline that ends the string.
\<close>

definition digits_quote_at_end :: "string \<Rightarrow> bool" where
  "digits_quote_at_end s \<longleftrightarrow>
     (case rev s of x # d # _ \<Rightarrow> x = quote \<and> isdecimal d | _ \<Rightarrow> False)"

definition re_search_digits_quote :: "string \<Rightarrow> bool" where
  "re_search_digits_quote s \<longleftrightarrow>
     digits_quote_at_end s \<or> (endswith s CHR 0x0A \<and> digits_quote_at_end (butlast s))"

text \<open>\<open>s.replace(c, '')\<close> for a single character \<open>c\<close>.\<close>

definition replace_with_empty :: "char \<Rightarrow> string \<Rightarrow> string" where
  "replace_with_empty c s = filter (\<lambda>x. x \<noteq> c) s"

text \<open>\<open>re.sub(r'\s+', ' ', s)\<close>: every maximal run of whitespace becomes one space.\<close>

function re_sub_spaces :: "string \<Rightarrow> string" where
  "re_sub_spaces [] = []"
| "re_sub_spaces (c # cs) =
     (if isspace c then CHR '' '' # re_sub_spaces (dropWhile isspace cs)
      else c # re_sub_spaces cs)"
  by pat_completeness auto
termination
  by (relation "measure length") (auto simp: le_imp_less_Suc length_dropWhile_le)

text \<open>\<open>str.split()\<close> without a separator: the maximal runs of non-whitespace.\<close>

fun split_from :: "string \<Rightarrow> string \<Rightarrow> string list" where
  "split_from w [] = (if w = [] then [] else [w])"
| "split_from w (c # cs) =
     (if isspace c then (if w = [] then split_from [] cs else w # split_from [] cs)
      else split_from (w @ [c]) cs)"

definition split :: "string \<Rightarrow> string list" where
  "split s = split_from [] s"

text \<open>\<open>sep.join(words)\<close>.\<close>

fun join :: "string \<Rightarrow> string list \<Rightarrow> string" where
  "join sep [] = []"
| "join sep [w] = w"
| "join sep (w # ws) = w @ sep @ join sep ws"

section \<open>Cleaning item names\<close>

text \<open>\<open>DataLoader.clean_item_name\<close>, statement by statement.\<close>

definition clean_item_name :: "string \<Rightarrow> string" where
  "clean_item_name item_name =
     (let item_name1 = (if startswith item_name quote then strip (tl item_name) else item_name);
          item_name2 = (if endswith item_name1 quote \<and> \<not> re_search_digits_quote item_name1
                        then strip (butlast item_name1) else item_name1);
          item_name3 = strip (replace_with_empty CHR '','' (replace_with_empty CHR ''*''
                          (replace_with_empty CHR 0xAE item_name2)));
          item_name4 = strip (re_sub_spaces item_name3)
      in item_name4)"

text \<open>
  The steps as the specification words them, for comparison with the code: strip one
  leading quote; strip one trailing quote unless a digit stands immediately before it;
  remove the trademark sign, asterisks and commas; collapse every run of whitespace to
  one space; trim both ends. \<open>spec_steps_after_leading_quote\<close> is everything after the
  first step.
\<close>

definition preceded_by_digit :: "string \<Rightarrow> bool" where
  "preceded_by_digit s \<longleftrightarrow> (case rev s of _ # d # _ \<Rightarrow> isdecimal d | _ \<Rightarrow> False)"

definition remove_symbols :: "string \<Rightarrow> string" where
  "remove_symbols s = filter (\<lambda>x. x \<notin> set [CHR 0xAE, CHR ''*'', CHR '','']) s"

definition spec_steps_after_leading_quote :: "string \<Rightarrow> string" where
  "spec_steps_after_leading_quote s =
     (let s2 = (if endswith s quote \<and> \<not> preceded_by_digit s then butlast s else s);
          s3 = remove_symbols s2;
          s4 = re_sub_spaces s3
      in strip s4)"

definition cleanIdentifier_spec :: "string \<Rightarrow> string" where
  "cleanIdentifier_spec raw =
     spec_steps_after_leading_quote (if startswith raw quote then tl raw else raw)"

section \<open>Data frames and ingestion\<close>

text \<open>
  A row of the CSV source as pandas reads it: the \<open>item\<close> column and, in
  \<open>csv_fields\<close>, the cells of all the other columns. A DataFrame is the list of its
  rows, in order.
\<close>

record csv_row =
  csv_item :: cell
  csv_fields :: "cell list"

definition cells :: "csv_row \<Rightarrow> cell list" where
  "cells r = csv_item r # csv_fields r"

fun isna :: "cell \<Rightarrow> bool" where
  "isna NaN = True"
| "isna (Str _) = False"
| "isna (Num _) = False"

text \<open>\<open>DataLoader.drop_nulls\<close>: \<open>df.dropna()\<close> drops every row that holds a null.\<close>

fun drop_nulls :: "csv_row list \<Rightarrow> csv_row list" where
  "drop_nulls [] = []"
| "drop_nulls (r # df) =
     (if list_ex isna (cells r) then drop_nulls df else r # drop_nulls df)"

text \<open>
  \<open>Series.apply(f)\<close> calls \<open>f\<close> on the elements in order; the first exception ends
  the call.
\<close>

fun apply_series :: "('a \<Rightarrow> py_error + 'b) \<Rightarrow> 'a list \<Rightarrow> py_error + 'b list" where
  "apply_series f [] = Inr []"
| "apply_series f (x # xs) =
     (case f x of
        Inl e \<Rightarrow> Inl e
      | Inr y \<Rightarrow> (case apply_series f xs of Inl e \<Rightarrow> Inl e | Inr ys \<Rightarrow> Inr (y # ys)))"

text \<open>
  \<open>clean_item_name\<close> on a cell of the column: only a \<open>str\<close> has \<open>startswith\<close>; on
  the float \<open>NaN\<close> of a missing field, or on a number, the attribute lookup raises.
\<close>

definition clean_item_name_cell :: "cell \<Rightarrow> py_error + cell" where
  "clean_item_name_cell c =
     (case c of Str s \<Rightarrow> Inr (Str (clean_item_name s)) | _ \<Rightarrow> Inl AttributeError)"

text \<open>
  Reading with \<open>chunksize = n\<close>: successive chunks of \<open>n\<close> rows, the last one shorter.
  An empty source gives no chunk to process.
\<close>

function chunks_of :: "nat \<Rightarrow> 'a list \<Rightarrow> 'a list list" where
  "chunks_of n xs = (if n = 0 \<or> xs = [] then [] else take n xs # chunks_of n (drop n xs))"
  by pat_completeness auto
termination
  by (relation "measure (\<lambda>(n, xs). length xs)") auto

declare chunks_of.simps [simp del]

text \<open>
  The loop of \<open>DataLoader.load_csv_to_db\<close> over the chunks. \<open>insert_chunk\<close> is the
  database's append (\<open>to_sql\<close>), which may raise; the exception handlers log and
  re-raise.
\<close>

fun load_chunks ::
  "('db \<Rightarrow> csv_row list \<Rightarrow> py_error + 'db) \<Rightarrow> csv_row list list \<Rightarrow> 'db \<Rightarrow> py_error option \<times> 'db" where
  "load_chunks insert_chunk [] db = (None, db)"
| "load_chunks insert_chunk (chunk # rest) db =
     (case apply_series clean_item_name_cell (map csv_item chunk) of
        Inl e \<Rightarrow> (Some e, db)
      | Inr items \<Rightarrow>
          (let chunk1 = map2 (\<lambda>r i. r\<lparr>csv_item := i\<rparr>) chunk items;
               chunk_cleaned = drop_nulls chunk1
           in case insert_chunk db chunk_cleaned of
                Inl e \<Rightarrow> (Some e, db)
              | Inr db1 \<Rightarrow> load_chunks insert_chunk rest db1))"

text \<open>
  \<open>DataLoader.load_csv_to_db\<close>: \<open>csv_file\<close> is the list of the rows of the file;
  \<open>pd.read_csv\<close> refuses a \<open>chunksize\<close> below 1 with \<open>ValueError\<close>.
\<close>

definition load_csv_to_db ::
  "('db \<Rightarrow> csv_row list \<Rightarrow> py_error + 'db) \<Rightarrow> int \<Rightarrow> int \<Rightarrow> csv_row list \<Rightarrow> real \<Rightarrow> 'db
     \<Rightarrow> py_error option \<times> 'db" where
  "load_csv_to_db insert_chunk available_memory_bytes row_bytes csv_file memory_fraction db =
     (case DataLoader_calculate_chunk_size available_memory_bytes row_bytes
             (int (length csv_file)) memory_fraction of
        Inl e \<Rightarrow> (Some e, db)
      | Inr chunk_size \<Rightarrow>
          if chunk_size < 1 then (Some ValueError, db)
          else load_chunks insert_chunk (chunks_of (nat chunk_size) csv_file) db)"

section \<open>The fastfood table\<close>

text \<open>
  A row of the table \<open>fastfood\<close>: the primary key, the item name (a string: ingestion
  only ever stores cleaned strings), the translation and the category (both \<open>NULL\<close>
  until written), the seven columns the classifier reads, and in \<open>row_other\<close> the
  remaining columns. The connection sees its own uncommitted writes (\<open>working\<close>);
  \<open>committed\<close> is what is durable.
\<close>

datatype sql_value = SqlNull | SqlInt int | SqlReal real | SqlText string

record db_row =
  row_id :: int
  row_item :: string
  row_item_gr :: "string option"
  row_category :: "string option"
  calories :: sql_value
  total_fat :: sql_value
  sugar :: sql_value
  total_carb :: sql_value
  protein :: sql_value
  calcium :: sql_value
  fiber :: sql_value
  row_other :: "sql_value list"

record database =
  committed :: "db_row list"
  working :: "db_row list"

definition commit :: "database \<Rightarrow> database" where
  "commit db = db\<lparr>committed := working db\<rparr>"

text \<open>\<open>UPDATE fastfood SET item_gr = ? WHERE id = ?\<close> on the connection.\<close>

definition execute_update_item_gr :: "string option \<Rightarrow> int \<Rightarrow> database \<Rightarrow> database" where
  "execute_update_item_gr v i db =
     db\<lparr>working := map (\<lambda>r. if row_id r = i then r\<lparr>row_item_gr := v\<rparr> else r) (working db)\<rparr>"

text \<open>\<open>UPDATE fastfood SET category = ? WHERE id = ?\<close> on the connection.\<close>

definition execute_update_category :: "string option \<Rightarrow> int \<Rightarrow> database \<Rightarrow> database" where
  "execute_update_category v i db =
     db\<lparr>working := map (\<lambda>r. if row_id r = i then r\<lparr>row_category := v\<rparr> else r) (working db)\<rparr>"

section \<open>Translation\<close>

text \<open>
  The external collaborator takes a word and a target language and returns the
  translated text or raises; within a run it is a function of its arguments. Beside its
  result every translating function returns the list of the calls it made to the
  collaborator, in order.
\<close>

type_synonym translator = "string \<Rightarrow> string \<Rightarrow> py_error + string"

type_synonym calls = "(string \<times> string) list"

text \<open>The list comprehension of \<open>google_translate_word_by_word\<close>.\<close>

fun translate_words :: "translator \<Rightarrow> string \<Rightarrow> string list \<Rightarrow> (py_error + string list) \<times> calls" where
  "translate_words tr dest [] = (Inr [], [])"
| "translate_words tr dest (word # words) =
     (case tr word dest of
        Inl e \<Rightarrow> (Inl e, [(word, dest)])
      | Inr t \<Rightarrow>
          (case translate_words tr dest words of
             (Inl e, cs) \<Rightarrow> (Inl e, (word, dest) # cs)
           | (Inr ts, cs) \<Rightarrow> (Inr (t # ts), (word, dest) # cs)))"

definition google_translate_word_by_word ::
  "translator \<Rightarrow> string \<Rightarrow> string \<Rightarrow> (py_error + string) \<times> calls" where
  "google_translate_word_by_word tr item target_language =
     (let words = split item
      in case translate_words tr target_language words of
           (Inl e, cs) \<Rightarrow> (Inl e, cs)
         | (Inr translated_words, cs) \<Rightarrow> (Inr (join '' '' translated_words), cs))"

definition translate_item ::
  "(string \<rightharpoonup> string) \<Rightarrow> translator \<Rightarrow> string \<Rightarrow> (py_error + string) \<times> calls" where
  "translate_item dict_translations tr item =
     (case dict_translations item of
        Some v \<Rightarrow> (Inr v, [])
      | None \<Rightarrow> google_translate_word_by_word tr item ''el'')"

section \<open>Enrichment\<close>

text \<open>The row loop of \<open>populate_item_gr_column\<close>: one \<open>UPDATE\<close> per row of the chunk.\<close>

fun update_rows :: "(db_row \<times> string) list \<Rightarrow> database \<Rightarrow> database" where
  "update_rows [] db = db"
| "update_rows ((row, item_gr) # rest) db =
     update_rows rest (execute_update_item_gr (Some item_gr) (row_id row) db)"

text \<open>
  The chunk loop: the whole chunk is translated first, then written back row by row,
  then committed.
\<close>

fun populate_chunks ::
  "(string \<rightharpoonup> string) \<Rightarrow> translator \<Rightarrow> db_row list list \<Rightarrow> database \<Rightarrow> py_error option \<times> database" where
  "populate_chunks d tr [] db = (None, db)"
| "populate_chunks d tr (chunk # rest) db =
     (case apply_series (\<lambda>item. fst (translate_item d tr item)) (map row_item chunk) of
        Inl e \<Rightarrow> (Some e, db)
      | Inr item_gr \<Rightarrow> populate_chunks d tr rest (commit (update_rows (zip chunk item_gr) db)))"

text \<open>
  \<open>Database.populate_item_gr_column\<close>; the memory readings that
  \<open>translator.calculate_chunk_size()\<close> takes are inputs.
\<close>

definition populate_item_gr_column ::
  "(string \<rightharpoonup> string) \<Rightarrow> translator \<Rightarrow> int \<Rightarrow> real \<Rightarrow> int \<Rightarrow> database \<Rightarrow> py_error option \<times> database" where
  "populate_item_gr_column d tr available_memory_bytes memory_fraction one_row_memory_usage_bytes db =
     (case TranslatorModule_calculate_chunk_size available_memory_bytes memory_fraction
             one_row_memory_usage_bytes of
        Inl e \<Rightarrow> (Some e, db)
      | Inr chunk_size \<Rightarrow> populate_chunks d tr (chunks_of (nat chunk_size) (working db)) db)"

text \<open>What a successful translation makes of a row, and whether a row's item fails.\<close>

definition translated :: "(string \<rightharpoonup> string) \<Rightarrow> translator \<Rightarrow> db_row \<Rightarrow> db_row" where
  "translated d tr r =
     (case fst (translate_item d tr (row_item r)) of
        Inr g \<Rightarrow> r\<lparr>row_item_gr := Some g\<rparr>
      | Inl _ \<Rightarrow> r)"

definition item_fails :: "(string \<rightharpoonup> string) \<Rightarrow> translator \<Rightarrow> db_row \<Rightarrow> bool" where
  "item_fails d tr r = isl (fst (translate_item d tr (row_item r)))"

text \<open>A row for examples: only the key, the item name and the calories vary.\<close>

definition sample_row :: "int \<Rightarrow> string \<Rightarrow> sql_value \<Rightarrow> db_row" where
  "sample_row i name cal =
     \<lparr>row_id = i, row_item = name, row_item_gr = None, row_category = None,
      calories = cal, total_fat = SqlInt 7, sugar = SqlReal 11, total_carb = SqlInt 44,
      protein = SqlReal 37, calcium = SqlReal 20, fiber = SqlReal 3, row_other = []\<rparr>"

section \<open>Classification\<close>

text \<open>
  \<open>pd.to_numeric(errors='coerce')\<close> on a value of the table: \<open>NULL\<close> and unparsable
  text become \<open>NaN\<close> (here \<open>None\<close>); \<open>parse\<close> is pandas' reading of a text as a number.
\<close>

definition pd_to_numeric :: "(string \<Rightarrow> real option) \<Rightarrow> sql_value \<Rightarrow> real option" where
  "pd_to_numeric parse v =
     (case v of
        SqlNull \<Rightarrow> None
      | SqlInt i \<Rightarrow> Some (real_of_int i)
      | SqlReal x \<Rightarrow> Some x
      | SqlText s \<Rightarrow> parse s)"

text \<open>\<open>self.features\<close>, in the order of the source.\<close>

definition features :: "db_row \<Rightarrow> sql_value list" where
  "features r = [calories r, total_fat r, sugar r, total_carb r, protein r, calcium r, fiber r]"

definition feature_vector :: "(string \<Rightarrow> real option) \<Rightarrow> db_row \<Rightarrow> real option list" where
  "feature_vector parse r = map (pd_to_numeric parse) (features r)"

definition complete_features :: "(string \<Rightarrow> real option) \<Rightarrow> db_row \<Rightarrow> bool" where
  "complete_features parse r = list_all (\<lambda>v. v \<noteq> None) (feature_vector parse r)"

text \<open>\<open>self.category_mapping\<close>; \<open>Series.map\<close> gives \<open>NaN\<close> for a cluster id outside it.\<close>

definition category_mapping :: "nat \<Rightarrow> string option" where
  "category_mapping c =
     (if c = 0 then Some ''Side'' else if c = 1 then Some ''Dessert''
      else if c = 2 then Some ''Main'' else None)"

text \<open>
  \<open>Classifier.classify_items\<close> on the rows of the table. The scaler
  (\<open>StandardScaler().fit_transform\<close>) and the clustering
  (\<open>KMeans(n_clusters, random_state).fit_predict\<close>) are scikit-learn's; both may raise.
  Assigning labels of the wrong length to the column raises \<open>ValueError\<close>.
\<close>

definition classify_items ::
  "(string \<Rightarrow> real option) \<Rightarrow> (real list list \<Rightarrow> py_error + real list list)
     \<Rightarrow> (nat \<Rightarrow> nat \<Rightarrow> real list list \<Rightarrow> py_error + nat list) \<Rightarrow> nat \<Rightarrow> db_row list
     \<Rightarrow> py_error + db_row list" where
  "classify_items parse fit_transform fit_predict n_clusters df =
     (let kept = filter (complete_features parse) df;
          feature_df = map (\<lambda>r. map the (feature_vector parse r)) kept
      in case fit_transform feature_df of
           Inl e \<Rightarrow> Inl e
         | Inr scaled_features \<Rightarrow>
             (case fit_predict n_clusters 0 scaled_features of
                Inl e \<Rightarrow> Inl e
              | Inr labels \<Rightarrow>
                  if length labels \<noteq> length kept then Inl ValueError
                  else Inr (map2 (\<lambda>r c. r\<lparr>row_category := category_mapping c\<rparr>) kept labels)))"

text \<open>Two rows that differ at most in the category.\<close>

definition unchanged_but_category :: "db_row \<Rightarrow> db_row \<Rightarrow> bool" where
  "unchanged_but_category r r' \<longleftrightarrow> r'\<lparr>row_category := row_category r\<rparr> = r"

text \<open>The row loop of \<open>classify_items_and_add_category\<close>.\<close>

fun update_categories :: "db_row list \<Rightarrow> database \<Rightarrow> database" where
  "update_categories [] db = db"
| "update_categories (row # rest) db =
     update_categories rest (execute_update_category (row_category row) (row_id row) db)"

definition classify_items_and_add_category ::
  "(string \<Rightarrow> real option) \<Rightarrow> (real list list \<Rightarrow> py_error + real list list)
     \<Rightarrow> (nat \<Rightarrow> nat \<Rightarrow> real list list \<Rightarrow> py_error + nat list) \<Rightarrow> nat \<Rightarrow> database
     \<Rightarrow> py_error option \<times> database" where
  "classify_items_and_add_category parse fit_transform fit_predict n_clusters db =
     (case classify_items parse fit_transform fit_predict n_clusters (working db) of
        Inl e \<Rightarrow> (Some e, db)
      | Inr classified_df \<Rightarrow> (None, commit (update_categories classified_df db)))"

section \<open>Export\<close>

text \<open>
  The file system maps a path to a directory or to a file; a file written by
  \<open>to_csv(index=False)\<close> is its header and its records, one per row of the frame, a
  \<open>NULL\<close> being \<open>None\<close>. \<open>os.remove\<close> raises on a directory.
\<close>

record csv_artifact =
  header :: "string list"
  records :: "string option list list"

datatype fs_entry = Directory | File csv_artifact

definition export_classification_to_csv ::
  "(string \<rightharpoonup> fs_entry) \<Rightarrow> database \<Rightarrow> string \<Rightarrow> py_error + (string \<rightharpoonup> fs_entry)" where
  "export_classification_to_csv fs db csv_filename =
     (if fs csv_filename = Some Directory then Inl OSError
      else
        let fs1 = (if fs csv_filename \<noteq> None then fs(csv_filename := None) else fs);
            df = map (\<lambda>r. [Some (row_item r), row_item_gr r, row_category r]) (working db)
        in Inr (fs1(csv_filename \<mapsto> File \<lparr>header = [''item'', ''item_gr'', ''category''], records = df\<rparr>)))"

definition default_csv_filename :: string where
  "default_csv_filename = ''data/food_categories.csv''"

section \<open>Chunk-size theorems\<close>

lemma py_int_floor: "0 \<le> x \<Longrightarrow> py_int x = \<lfloor>x\<rfloor>"
  by (simp add: py_int_def)

lemma py_int_nonpos: "x < 0 \<Longrightarrow> py_int x \<le> 0"
  by (simp add: py_int_def ceiling_le_iff)

lemma gb_roundtrip:
  "(f * get_available_memory a) * (1024 ^ 3) / real_of_int p = f * real_of_int a / real_of_int p"
  by (simp add: get_available_memory_def)

lemma gb_ratio:
  "(f * get_available_memory a) / (real_of_int p / (1024 ^ 3)) = f * real_of_int a / real_of_int p"
  by (simp add: get_available_memory_def)

lemma max_py_int_floor: "max (py_int x) 1 = max \<lfloor>x\<rfloor> 1"
proof (cases "0 \<le> x")
  case True
  then show ?thesis by (simp add: py_int_floor)
next
  case False
  then have "py_int x \<le> 0" and "\<lfloor>x\<rfloor> \<le> 0"
    by (simp_all add: py_int_nonpos floor_le_iff)
  then show ?thesis by simp
qed

lemma translator_chunk_size_value:
  assumes "0 < p"
  shows "TranslatorModule_calculate_chunk_size a f p
           = Inr (max \<lfloor>f * real_of_int a / real_of_int p\<rfloor> 1)"
proof -
  have "real_of_int p / (1024 ^ 3) \<noteq> 0" using assms by simp
  then show ?thesis
    unfolding TranslatorModule_calculate_chunk_size_def Let_def gb_ratio max_py_int_floor
    by (simp only: if_False)
qed

lemma loader_whole_source:
  assumes "real_of_int (p * n) < real_of_int a"
  shows "DataLoader_calculate_chunk_size a p n f = Inr n"
  using assms
  unfolding DataLoader_calculate_chunk_size_def Let_def get_available_memory_def
  by (simp add: divide_less_cancel)

lemma loader_chunked:
  assumes "0 < p" and "\<not> real_of_int (p * n) < real_of_int a"
    and "1 \<le> \<lfloor>f * real_of_int a / real_of_int p\<rfloor>"
  shows "DataLoader_calculate_chunk_size a p n f = Inr \<lfloor>f * real_of_int a / real_of_int p\<rfloor>"
proof -
  have nonneg: "0 \<le> f * real_of_int a / real_of_int p"
    using assms(3) by (simp add: le_floor_iff)
  have "\<not> real_of_int (p * n) / (1024 ^ 3) < get_available_memory a"
    using assms(2) by (simp add: get_available_memory_def divide_less_cancel)
  moreover have "p \<noteq> 0" using assms(1) by simp
  ultimately show ?thesis
    unfolding DataLoader_calculate_chunk_size_def Let_def gb_roundtrip py_int_floor [OF nonneg]
    by (simp only: if_False)
qed

text \<open>
  C1, as stated, fails. With 1000 bytes available, a fraction of one half and 100 bytes
  per row, a table of 8 rows is estimated at 800 bytes, below the capacity, and yet
  \<open>TranslatorModule.calculate_chunk_size\<close> answers 5, fewer than the 8 rows of the
  source: it has no whole-source branch and never sees the row count. And with 100
  bytes available, one half, and a single row of 150 bytes,
  \<open>DataLoader.calculate_chunk_size\<close> takes the chunked branch and answers 0: it does
  not clamp.
\<close>

theorem C1_chunk_size_counterexample:
  "real_of_int (100 * 8) < real_of_int 1000
   \<and> TranslatorModule_calculate_chunk_size 1000 (1/2) 100 = Inr 5
   \<and> (5::int) < 8
   \<and> DataLoader_calculate_chunk_size 100 150 1 (1/2) = Inr 0"
  unfolding TranslatorModule_calculate_chunk_size_def DataLoader_calculate_chunk_size_def
    get_available_memory_def py_int_def Let_def
  by simp

text \<open>
  C1, amended. For a positive per-row footprint \<open>p\<close>:
  \<open>TranslatorModule.calculate_chunk_size\<close> always returns
  \<open>floor (fraction * available / p)\<close> clamped to at least 1, whatever the size of the
  table; \<open>DataLoader.calculate_chunk_size\<close> returns the full row count \<open>n\<close> of the source
  when the estimated total \<open>p * n\<close> is below the available capacity, and otherwise
  \<open>floor (fraction * available / p)\<close> whenever that number is at least 1.
\<close>

theorem C1_chunk_size_amended:
  assumes "0 < p"
  shows "(\<exists>c. TranslatorModule_calculate_chunk_size a f p = Inr c
              \<and> c = max \<lfloor>f * real_of_int a / real_of_int p\<rfloor> 1 \<and> 1 \<le> c)
       \<and> (real_of_int (p * n) < real_of_int a \<longrightarrow>
            DataLoader_calculate_chunk_size a p n f = Inr n)
       \<and> (\<not> real_of_int (p * n) < real_of_int a \<and> 1 \<le> \<lfloor>f * real_of_int a / real_of_int p\<rfloor> \<longrightarrow>
            DataLoader_calculate_chunk_size a p n f = Inr \<lfloor>f * real_of_int a / real_of_int p\<rfloor>)"
proof (intro conjI impI)
  show "\<exists>c. TranslatorModule_calculate_chunk_size a f p = Inr c
          \<and> c = max \<lfloor>f * real_of_int a / real_of_int p\<rfloor> 1 \<and> 1 \<le> c"
    using translator_chunk_size_value [OF assms] by simp
next
  assume "real_of_int (p * n) < real_of_int a"
  then show "DataLoader_calculate_chunk_size a p n f = Inr n"
    by (rule loader_whole_source)
next
  assume h: "\<not> real_of_int (p * n) < real_of_int a \<and> 1 \<le> \<lfloor>f * real_of_int a / real_of_int p\<rfloor>"
  then show "DataLoader_calculate_chunk_size a p n f = Inr \<lfloor>f * real_of_int a / real_of_int p\<rfloor>"
    using loader_chunked [OF assms] by blast
qed

theorem C1_chunk_size_amended_witness:
  "(0::int) < 100
   \<and> TranslatorModule_calculate_chunk_size 1000 (1/2) 100 = Inr 5
   \<and> real_of_int (100 * 3) < real_of_int 1000
   \<and> DataLoader_calculate_chunk_size 1000 100 3 (1/2) = Inr 3
   \<and> \<not> real_of_int (100 * 30) < real_of_int 1000
   \<and> 1 \<le> \<lfloor>(1/2) * real_of_int 1000 / real_of_int 100\<rfloor>
   \<and> DataLoader_calculate_chunk_size 1000 100 30 (1/2) = Inr 5"
  using C1_chunk_size_amended [of 100 1000 "1/2" 3] C1_chunk_size_amended [of 100 1000 "1/2" 30]
  by simp

section \<open>Lemmas on strings\<close>

lemma space_is_space: "isspace CHR '' ''"
  by (simp add: isspace_def)

lemma quote_not_space: "\<not> isspace quote"
  by (simp add: isspace_def quote_def)

lemma space_not_decimal: "isspace c \<Longrightarrow> \<not> isdecimal c"
  by (auto simp: isspace_def isdecimal_def)

lemma lstrip_Nil: "lstrip [] = []"
  by (simp add: lstrip_def)

lemma lstrip_Cons: "lstrip (c # cs) = (if isspace c then lstrip cs else c # cs)"
  by (simp add: lstrip_def)

lemma rstrip_Nil: "rstrip [] = []"
  by (simp add: rstrip_def)

lemma rstrip_empty_iff: "rstrip s = [] \<longleftrightarrow> (\<forall>c\<in>set s. isspace c)"
  by (simp add: rstrip_def dropWhile_eq_Nil_conv)

lemma rstrip_Cons:
  "rstrip (c # cs) = (if rstrip cs = [] \<and> isspace c then [] else c # rstrip cs)"
  by (simp add: rstrip_def dropWhile_append dropWhile_eq_Nil_conv)

lemma lstrip_empty_iff: "lstrip s = [] \<longleftrightarrow> (\<forall>c\<in>set s. isspace c)"
  by (simp add: lstrip_def dropWhile_eq_Nil_conv)

lemma set_lstrip: "set (lstrip s) \<subseteq> set s"
  by (simp add: lstrip_def set_dropWhileD subsetI)

lemma set_rstrip: "set (rstrip s) \<subseteq> set s"
  by (induction s) (auto simp: rstrip_Nil rstrip_Cons)

lemma set_strip: "set (strip s) \<subseteq> set s"
  unfolding strip_def using set_lstrip set_rstrip by blast

lemma length_lstrip: "length (lstrip s) \<le> length s"
  by (simp add: lstrip_def length_dropWhile_le)

lemma length_rstrip: "length (rstrip s) \<le> length s"
  using length_dropWhile_le [of isspace "rev s"] by (simp add: rstrip_def)

lemma length_strip: "length (strip s) \<le> length s"
  unfolding strip_def using length_lstrip [of s] length_rstrip [of "lstrip s"] by linarith

lemma lstrip_rstrip_commute: "lstrip (rstrip s) = rstrip (lstrip s)"
proof (induction s)
  case Nil
  then show ?case by (simp add: lstrip_Nil rstrip_Nil)
next
  case (Cons c cs)
  show ?case
  proof (cases "isspace c")
    case True
    show ?thesis
    proof (cases "rstrip cs = []")
      case e: True
      then have "lstrip cs = []"
        by (simp add: rstrip_empty_iff lstrip_empty_iff)
      with e True show ?thesis
        by (simp add: lstrip_Cons rstrip_Cons lstrip_Nil rstrip_Nil)
    next
      case False
      with True Cons show ?thesis
        by (simp add: lstrip_Cons rstrip_Cons)
    qed
  next
    case False
    then show ?thesis by (simp add: lstrip_Cons rstrip_Cons)
  qed
qed

lemma lstrip_idem: "lstrip (lstrip s) = lstrip s"
  by (induction s) (simp_all add: lstrip_Nil lstrip_Cons)

lemma rstrip_idem: "rstrip (rstrip s) = rstrip s"
  by (induction s) (auto simp: rstrip_Nil rstrip_Cons)

lemma strip_idem: "strip (strip s) = strip s"
  by (simp add: strip_def lstrip_rstrip_commute rstrip_idem lstrip_idem)

lemma re_sub_spaces_empty_iff: "re_sub_spaces x = [] \<longleftrightarrow> x = []"
  by (cases x) simp_all

lemma lstrip_fixed: "\<not> startswith_space y \<Longrightarrow> lstrip y = y"
  by (cases y) (simp_all add: startswith_space_def lstrip_Nil lstrip_Cons)

lemma lstrip_not_startswith_space: "\<not> startswith_space (lstrip s)"
  by (induction s) (simp_all add: startswith_space_def lstrip_Nil lstrip_Cons)

lemma re_sub_spaces_startswith_space:
  "startswith_space (re_sub_spaces y) \<longleftrightarrow> startswith_space y"
  by (cases y) (simp_all add: startswith_space_def space_is_space)

lemma lstrip_re_sub_spaces: "lstrip (re_sub_spaces x) = re_sub_spaces (lstrip x)"
proof (cases x)
  case Nil
  then show ?thesis by (simp add: lstrip_Nil)
next
  case (Cons c cs)
  show ?thesis
  proof (cases "isspace c")
    case True
    have "\<not> startswith_space (re_sub_spaces (lstrip cs))"
      by (simp add: re_sub_spaces_startswith_space lstrip_not_startswith_space)
    then have "lstrip (re_sub_spaces (lstrip cs)) = re_sub_spaces (lstrip cs)"
      by (rule lstrip_fixed)
    with True Cons show ?thesis
      by (simp add: lstrip_Cons space_is_space) (simp add: lstrip_def)
  next
    case False
    with Cons show ?thesis by (simp add: lstrip_Cons)
  qed
qed

lemma rstrip_lstrip_empty_iff: "rstrip (lstrip cs) = [] \<longleftrightarrow> rstrip cs = []"
proof -
  have "rstrip (lstrip cs) = lstrip (rstrip cs)"
    by (simp add: lstrip_rstrip_commute)
  moreover have "lstrip (rstrip cs) = [] \<longleftrightarrow> rstrip cs = []"
  proof
    assume "lstrip (rstrip cs) = []"
    then have "\<forall>c\<in>set (rstrip cs). isspace c" by (simp add: lstrip_empty_iff)
    then have "rstrip (rstrip cs) = []" by (simp add: rstrip_empty_iff)
    then show "rstrip cs = []" by (simp add: rstrip_idem)
  next
    assume "rstrip cs = []"
    then show "lstrip (rstrip cs) = []" by (simp add: lstrip_Nil)
  qed
  ultimately show ?thesis by simp
qed

lemma rstrip_re_sub_spaces: "rstrip (re_sub_spaces x) = re_sub_spaces (rstrip x)"
proof (induction x rule: re_sub_spaces.induct)
  case 1
  then show ?case by (simp add: rstrip_Nil)
next
  case (2 c cs)
  show ?case
  proof (cases "isspace c")
    case True
    have dw: "dropWhile isspace cs = lstrip cs" by (simp add: lstrip_def)
    have ih: "rstrip (re_sub_spaces (lstrip cs)) = re_sub_spaces (rstrip (lstrip cs))"
      using 2(1) [OF True] by (simp add: dw)
    show ?thesis
    proof (cases "rstrip cs = []")
      case e: True
      then have "rstrip (lstrip cs) = []" by (simp add: rstrip_lstrip_empty_iff)
      with e True ih show ?thesis
        by (simp add: rstrip_Cons dw space_is_space)
    next
      case ne: False
      then have "rstrip (lstrip cs) \<noteq> []" by (simp add: rstrip_lstrip_empty_iff)
      then have "re_sub_spaces (rstrip (lstrip cs)) \<noteq> []"
        by (simp add: re_sub_spaces_empty_iff)
      moreover have "dropWhile isspace (rstrip cs) = rstrip (lstrip cs)"
        using lstrip_rstrip_commute [of cs] by (simp add: lstrip_def)
      ultimately show ?thesis using ne True ih
        by (simp add: rstrip_Cons dw space_is_space)
    qed
  next
    case False
    with 2(2) show ?thesis by (simp add: rstrip_Cons)
  qed
qed

lemma strip_re_sub_spaces: "strip (re_sub_spaces x) = re_sub_spaces (strip x)"
  by (simp add: strip_def lstrip_re_sub_spaces rstrip_re_sub_spaces)

lemma re_sub_spaces_idem: "re_sub_spaces (re_sub_spaces x) = re_sub_spaces x"
proof (induction x rule: re_sub_spaces.induct)
  case 1
  then show ?case by simp
next
  case (2 c cs)
  show ?case
  proof (cases "isspace c")
    case True
    have "dropWhile isspace (re_sub_spaces (dropWhile isspace cs))
            = re_sub_spaces (dropWhile isspace cs)"
      using lstrip_re_sub_spaces [of "lstrip cs"] by (simp add: lstrip_def)
    with True 2(1) show ?thesis by (simp add: space_is_space)
  next
    case False
    with 2(2) show ?thesis by simp
  qed
qed

lemma set_re_sub_spaces: "set (re_sub_spaces x) \<subseteq> insert CHR '' '' (set x)"
proof (induction x rule: re_sub_spaces.induct)
  case 1
  then show ?case by simp
next
  case (2 c cs)
  show ?case
  proof (cases "isspace c")
    case True
    with 2(1) have "set (re_sub_spaces (dropWhile isspace cs)) \<subseteq> insert CHR '' '' (set cs)"
      using set_dropWhileD by fastforce
    with True show ?thesis by auto
  next
    case False
    with 2(2) show ?thesis by auto
  qed
qed

lemma length_re_sub_spaces: "length (re_sub_spaces x) \<le> length x"
proof (induction x rule: re_sub_spaces.induct)
  case 1
  then show ?case by simp
next
  case (2 c cs)
  show ?case
  proof (cases "isspace c")
    case True
    with 2(1) have "length (re_sub_spaces (dropWhile isspace cs)) \<le> length cs"
      using length_dropWhile_le [of isspace cs] by simp
    with True show ?thesis by simp
  next
    case False
    with 2(2) show ?thesis by simp
  qed
qed

lemma replace_chain: 
  "replace_with_empty CHR '','' (replace_with_empty CHR ''*'' (replace_with_empty CHR 0xAE s))
     = remove_symbols s"
  unfolding replace_with_empty_def remove_symbols_def filter_filter
  by (rule filter_cong) auto

lemma space_not_symbol: "isspace c \<Longrightarrow> c \<notin> set [CHR 0xAE, CHR ''*'', CHR '','']"
  by (auto simp: isspace_def)

lemma remove_symbols_Cons_space:
  "isspace c \<Longrightarrow> remove_symbols (c # cs) = c # remove_symbols cs"
  using space_not_symbol [of c] by (simp add: remove_symbols_def)

lemma remove_symbols_Cons:
  "remove_symbols (c # cs) =
     (if c \<in> set [CHR 0xAE, CHR ''*'', CHR '',''] then remove_symbols cs else c # remove_symbols cs)"
  by (simp add: remove_symbols_def)

lemma remove_symbols_Nil: "remove_symbols [] = []"
  by (simp add: remove_symbols_def)

lemma lstrip_remove_symbols: "lstrip (remove_symbols (lstrip x)) = lstrip (remove_symbols x)"
proof (induction x)
  case Nil
  then show ?case by (simp add: lstrip_Nil)
next
  case (Cons c cs)
  then show ?case
    by (cases "isspace c") (simp_all add: lstrip_Cons remove_symbols_Cons_space)
qed

lemma rstrip_remove_symbols: "rstrip (remove_symbols (rstrip x)) = rstrip (remove_symbols x)"
proof (induction x)
  case Nil
  then show ?case by (simp add: rstrip_Nil)
next
  case (Cons c cs)
  show ?case
  proof (cases "rstrip cs = [] \<and> isspace c")
    case True
    then have "rstrip (remove_symbols cs) = []"
      using Cons by (simp add: remove_symbols_Nil rstrip_Nil)
    with True show ?thesis
      by (simp add: rstrip_Cons remove_symbols_Cons_space remove_symbols_Nil rstrip_Nil)
  next
    case False
    then have r: "rstrip (c # cs) = c # rstrip cs" by (auto simp: rstrip_Cons)
    show ?thesis
    proof (cases "c \<in> set [CHR 0xAE, CHR ''*'', CHR '','']")
      case True
      then have "remove_symbols (c # rstrip cs) = remove_symbols (rstrip cs)"
        and "remove_symbols (c # cs) = remove_symbols cs"
        by (simp_all only: remove_symbols_Cons if_True)
      with Cons r show ?thesis by simp
    next
      case nsym: False
      then have "remove_symbols (c # rstrip cs) = c # remove_symbols (rstrip cs)"
        and "remove_symbols (c # cs) = c # remove_symbols cs"
        by (simp_all only: remove_symbols_Cons if_False)
      with Cons r show ?thesis by (simp add: rstrip_Cons)
    qed
  qed
qed

lemma strip_lstrip: "strip (lstrip x) = strip x"
  by (simp add: strip_def lstrip_idem)

lemma strip_remove_symbols_strip: "strip (remove_symbols (strip x)) = strip (remove_symbols x)"
proof -
  have "strip (remove_symbols (strip x)) = lstrip (rstrip (remove_symbols (rstrip (lstrip x))))"
    by (simp add: strip_def lstrip_rstrip_commute)
  also have "\<dots> = lstrip (rstrip (remove_symbols (lstrip x)))"
    by (simp add: rstrip_remove_symbols)
  also have "\<dots> = rstrip (lstrip (remove_symbols (lstrip x)))"
    by (simp add: lstrip_rstrip_commute)
  also have "\<dots> = rstrip (lstrip (remove_symbols x))"
    by (simp add: lstrip_remove_symbols)
  finally show ?thesis by (simp add: strip_def)
qed

lemma search_is_preceded_by_digit:
  assumes "endswith s quote"
  shows "re_search_digits_quote s = preceded_by_digit s"
proof -
  from assms obtain r where r: "rev s = quote # r"
    by (auto simp: endswith_def split: list.splits)
  then have "\<not> endswith s CHR 0x0A"
    by (simp add: endswith_def quote_def)
  with r show ?thesis
    by (simp add: re_search_digits_quote_def digits_quote_at_end_def preceded_by_digit_def
        split: list.splits)
qed

lemma trailing_quote_test:
  "(endswith s quote \<and> \<not> re_search_digits_quote s) = (endswith s quote \<and> \<not> preceded_by_digit s)"
  using search_is_preceded_by_digit by blast

lemma clean_item_name_steps:
  "clean_item_name s =
     spec_steps_after_leading_quote (if startswith s quote then strip (tl s) else s)"
proof -
  have tail: "strip (re_sub_spaces (strip (remove_symbols y))) = strip (re_sub_spaces (remove_symbols y))"
    for y by (simp add: strip_re_sub_spaces strip_idem)
  have tail2: "strip (re_sub_spaces (remove_symbols (strip y)))
                 = strip (re_sub_spaces (remove_symbols y))"
    for y by (simp add: strip_re_sub_spaces strip_remove_symbols_strip)
  show ?thesis
    unfolding clean_item_name_def spec_steps_after_leading_quote_def Let_def replace_chain
      trailing_quote_test
    by (simp add: tail tail2)
qed

lemma remove_symbols_idem: "remove_symbols (remove_symbols x) = remove_symbols x"
  by (simp add: remove_symbols_def)

lemma remove_symbols_fixed:
  assumes "set t \<subseteq> insert CHR '' '' (set (remove_symbols x))"
  shows "remove_symbols t = t"
proof -
  have "\<forall>c\<in>set t. c \<notin> set [CHR 0xAE, CHR ''*'', CHR '','']"
    using assms by (auto simp: remove_symbols_def)
  then show ?thesis
    unfolding remove_symbols_def by (simp only: filter_True)
qed

lemma spec_steps_normal:
  "re_sub_spaces (spec_steps_after_leading_quote y) = spec_steps_after_leading_quote y"
  "strip (spec_steps_after_leading_quote y) = spec_steps_after_leading_quote y"
  "remove_symbols (spec_steps_after_leading_quote y) = spec_steps_after_leading_quote y"
proof -
  define x where "x = (if endswith y quote \<and> \<not> preceded_by_digit y then butlast y else y)"
  have eq: "spec_steps_after_leading_quote y = strip (re_sub_spaces (remove_symbols x))"
    by (simp add: spec_steps_after_leading_quote_def x_def)
  show "re_sub_spaces (spec_steps_after_leading_quote y) = spec_steps_after_leading_quote y"
    by (simp add: eq strip_re_sub_spaces re_sub_spaces_idem)
  show "strip (spec_steps_after_leading_quote y) = spec_steps_after_leading_quote y"
    by (simp add: eq strip_idem)
  have "set (strip (re_sub_spaces (remove_symbols x))) \<subseteq> insert CHR '' '' (set (remove_symbols x))"
    using set_strip [of "re_sub_spaces (remove_symbols x)"] set_re_sub_spaces [of "remove_symbols x"]
    by blast
  then show "remove_symbols (spec_steps_after_leading_quote y) = spec_steps_after_leading_quote y"
    unfolding eq by (rule remove_symbols_fixed)
qed

lemma clean_item_name_normal:
  "re_sub_spaces (clean_item_name s) = clean_item_name s"
  "strip (clean_item_name s) = clean_item_name s"
  "remove_symbols (clean_item_name s) = clean_item_name s"
  by (simp_all only: clean_item_name_steps spec_steps_normal)

lemma length_remove_symbols: "length (remove_symbols x) \<le> length x"
  by (simp add: remove_symbols_def)

lemma length_tail_steps: "length (strip (re_sub_spaces (remove_symbols x))) \<le> length x"
  using length_strip [of "re_sub_spaces (remove_symbols x)"]
    length_re_sub_spaces [of "remove_symbols x"] length_remove_symbols [of x]
  by linarith

lemma length_spec_steps: "length (spec_steps_after_leading_quote y) \<le> length y"
proof -
  have "length (strip (re_sub_spaces (remove_symbols (butlast y)))) \<le> length y"
    using length_tail_steps [of "butlast y"] by simp
  then show ?thesis
    using length_tail_steps [of y] by (simp add: spec_steps_after_leading_quote_def)
qed

lemma endswith_nonempty: "endswith y c \<Longrightarrow> y \<noteq> []"
  by (auto simp: endswith_def)

lemma startswith_nonempty: "startswith y c \<Longrightarrow> y \<noteq> []"
  by (auto simp: startswith_def)

lemma length_spec_steps_strict:
  assumes "endswith y quote \<and> \<not> preceded_by_digit y"
  shows "length (spec_steps_after_leading_quote y) < length y"
proof -
  have "y \<noteq> []" using assms endswith_nonempty by blast
  then have "length (butlast y) < length y" by simp
  then have "length (strip (re_sub_spaces (remove_symbols (butlast y)))) < length y"
    using length_tail_steps [of "butlast y"] by linarith
  then show ?thesis
    using assms by (simp add: spec_steps_after_leading_quote_def)
qed

lemma length_clean_leading_quote:
  assumes "startswith s quote"
  shows "length (clean_item_name s) < length s"
proof -
  have "s \<noteq> []" using assms startswith_nonempty by blast
  then have "length (strip (tl s)) < length s"
    using length_strip [of "tl s"] by (cases s) simp_all
  then show ?thesis
    using assms length_spec_steps [of "strip (tl s)"]
    by (simp add: clean_item_name_steps)
qed

lemma length_clean_trailing_quote:
  assumes "\<not> startswith s quote" and "endswith s quote \<and> \<not> preceded_by_digit s"
  shows "length (clean_item_name s) < length s"
  using assms length_spec_steps_strict [of s] by (simp add: clean_item_name_steps)

lemma clean_fixed:
  assumes "re_sub_spaces t = t" and "strip t = t" and "remove_symbols t = t"
    and "\<not> startswith t quote" and "\<not> (endswith t quote \<and> \<not> preceded_by_digit t)"
  shows "clean_item_name t = t"
proof -
  have "(endswith t quote \<and> \<not> preceded_by_digit t) = False"
    using assms(5) by simp
  then show ?thesis
    using assms(1-4)
    by (simp only: clean_item_name_steps spec_steps_after_leading_quote_def Let_def if_False)
qed

lemma endswith_Cons_space:
  "isspace c \<Longrightarrow> endswith (c # cs) quote = endswith cs quote"
  using quote_not_space by (cases "rev cs") (auto simp: endswith_def)

lemma preceded_Cons_space:
  "isspace c \<Longrightarrow> preceded_by_digit (c # cs) = preceded_by_digit cs"
proof -
  assume sp: "isspace c"
  show ?thesis
  proof (cases "rev cs")
    case Nil
    then show ?thesis by (simp add: preceded_by_digit_def)
  next
    case (Cons a r)
    then show ?thesis using sp space_not_decimal [of c]
      by (cases r) (simp_all add: preceded_by_digit_def)
  qed
qed

lemma tail_steps_Cons_space:
  assumes "isspace c"
  shows "strip (re_sub_spaces (remove_symbols (c # y))) = strip (re_sub_spaces (remove_symbols y))"
proof -
  have "strip (re_sub_spaces (remove_symbols (c # y)))
          = strip (re_sub_spaces (lstrip (remove_symbols y)))"
    using assms
    by (simp add: remove_symbols_Cons_space strip_def lstrip_Cons space_is_space)
       (simp add: lstrip_def)
  also have "\<dots> = strip (re_sub_spaces (remove_symbols y))"
    by (simp add: strip_re_sub_spaces strip_lstrip)
  finally show ?thesis .
qed

lemma spec_steps_Cons_space:
  assumes "isspace c"
  shows "spec_steps_after_leading_quote (c # cs) = spec_steps_after_leading_quote cs"
proof (cases "endswith cs quote \<and> \<not> preceded_by_digit cs")
  case True
  then have "cs \<noteq> []" using endswith_nonempty by blast
  then have "butlast (c # cs) = c # butlast cs" by simp
  with True assms show ?thesis
    unfolding spec_steps_after_leading_quote_def Let_def
    by (simp add: endswith_Cons_space preceded_Cons_space tail_steps_Cons_space)
next
  case False
  then have "(endswith cs quote \<and> \<not> preceded_by_digit cs) = False"
    by simp
  then show ?thesis
    unfolding spec_steps_after_leading_quote_def Let_def
    by (simp only: endswith_Cons_space [OF assms] preceded_Cons_space [OF assms]
        tail_steps_Cons_space [OF assms] if_False)
qed

lemma spec_steps_lstrip:
  "spec_steps_after_leading_quote (lstrip r) = spec_steps_after_leading_quote r"
  by (induction r) (simp_all add: lstrip_Nil lstrip_Cons spec_steps_Cons_space)

lemma rstrip_fixed: "\<not> endswith_space r \<Longrightarrow> rstrip r = r"
  by (cases "rev r") (simp_all add: endswith_space_def rstrip_def)

lemma endswith_space_tl:
  assumes "startswith s quote" and "\<not> endswith_space s"
  shows "\<not> endswith_space (tl s)"
proof (cases s)
  case Nil
  then show ?thesis by (simp add: endswith_space_def)
next
  case (Cons a r)
  then show ?thesis using assms
    by (cases "rev r") (simp_all add: endswith_space_def)
qed

lemma clean_agrees_with_spec:
  assumes "\<not> (startswith s quote \<and> endswith_space s)"
  shows "clean_item_name s = cleanIdentifier_spec s"
proof (cases "startswith s quote")
  case True
  then have "\<not> endswith_space (tl s)" using assms endswith_space_tl by blast
  then have "strip (tl s) = lstrip (tl s)"
    by (simp add: strip_def lstrip_rstrip_commute [symmetric] rstrip_fixed)
  with True show ?thesis
    by (simp add: clean_item_name_steps cleanIdentifier_spec_def spec_steps_lstrip)
next
  case False
  then show ?thesis
    by (simp add: clean_item_name_steps cleanIdentifier_spec_def)
qed

section \<open>Cleaning: idempotence (C2)\<close>

text \<open>
  C2, as stated, fails: one call strips one leading quote, so on an item name wrapped in
  doubled quotes the second call strips what the first one left.
\<close>

theorem C2_idempotence_counterexample:
  \<open>clean_item_name ''""Chicken""'' = ''"Chicken"''
   \<and> clean_item_name (clean_item_name ''""Chicken""'') = ''Chicken''
   \<and> clean_item_name (clean_item_name ''""Chicken""'') \<noteq> clean_item_name ''""Chicken""''\<close>
  by (simp add: clean_item_name_steps spec_steps_after_leading_quote_def startswith_def
      endswith_def preceded_by_digit_def remove_symbols_def strip_def lstrip_def rstrip_def
      isspace_def isdecimal_def quote_def)

text \<open>
  C2, amended. Cleaning a cleaned name changes nothing exactly when the cleaned name
  neither begins with a quote nor ends with a quote that no digit precedes; in
  particular for every name whose cleaned form holds no quote at all.
\<close>

theorem C2_idempotent_iff:
  "clean_item_name (clean_item_name s) = clean_item_name s \<longleftrightarrow>
     \<not> startswith (clean_item_name s) quote
     \<and> \<not> (endswith (clean_item_name s) quote \<and> \<not> preceded_by_digit (clean_item_name s))"
proof
  assume fixed: "clean_item_name (clean_item_name s) = clean_item_name s"
  show "\<not> startswith (clean_item_name s) quote
     \<and> \<not> (endswith (clean_item_name s) quote \<and> \<not> preceded_by_digit (clean_item_name s))"
  proof (rule ccontr)
    assume "\<not> ?thesis"
    then have "length (clean_item_name (clean_item_name s)) < length (clean_item_name s)"
      using length_clean_leading_quote [of "clean_item_name s"]
        length_clean_trailing_quote [of "clean_item_name s"] by blast
    with fixed show False by simp
  qed
next
  assume "\<not> startswith (clean_item_name s) quote
     \<and> \<not> (endswith (clean_item_name s) quote \<and> \<not> preceded_by_digit (clean_item_name s))"
  then show "clean_item_name (clean_item_name s) = clean_item_name s"
    using clean_fixed [OF clean_item_name_normal [of s]] by blast
qed

theorem C2_idempotent_iff_witness:
  \<open>\<not> startswith (clean_item_name ''"Chicken"'') quote
   \<and> \<not> (endswith (clean_item_name ''"Chicken"'') quote
          \<and> \<not> preceded_by_digit (clean_item_name ''"Chicken"''))
   \<and> clean_item_name (clean_item_name ''"Chicken"'') = clean_item_name ''"Chicken"''\<close>
proof -
  have v: \<open>clean_item_name ''"Chicken"'' = ''Chicken''\<close>
    by (simp add: clean_item_name_steps spec_steps_after_leading_quote_def startswith_def
        endswith_def preceded_by_digit_def remove_symbols_def strip_def lstrip_def rstrip_def
        isspace_def isdecimal_def quote_def)
  have h: \<open>\<not> startswith (clean_item_name ''"Chicken"'') quote
     \<and> \<not> (endswith (clean_item_name ''"Chicken"'') quote
            \<and> \<not> preceded_by_digit (clean_item_name ''"Chicken"''))\<close>
    unfolding v by (simp add: startswith_def endswith_def quote_def)
  from h iffD2 [OF C2_idempotent_iff h] show ?thesis by blast
qed

section \<open>Cleaning: the steps (C3)\<close>

text \<open>
  C3, as stated, fails: after stripping a leading quote the code trims the rest at once,
  so a closing quote followed by whitespace becomes a trailing quote and is stripped,
  where the steps as worded leave it (as the code itself does when no leading quote is
  there).
\<close>

theorem C3_steps_counterexample:
  \<open>clean_item_name ''"Chicken" '' = ''Chicken''
   \<and> cleanIdentifier_spec ''"Chicken" '' = ''Chicken"''
   \<and> clean_item_name ''Chicken" '' = ''Chicken"''\<close>
  by (simp add: clean_item_name_steps cleanIdentifier_spec_def spec_steps_after_leading_quote_def
      startswith_def endswith_def preceded_by_digit_def remove_symbols_def strip_def lstrip_def
      rstrip_def isspace_def isdecimal_def quote_def)

text \<open>
  C3, amended. For every string, \<open>clean_item_name\<close> strips one leading quote if present
  and, when it stripped one, trims whitespace from both ends of the rest; then it strips
  one trailing quote unless a digit stands immediately before it, removes every
  trademark sign, asterisk and comma, collapses every run of whitespace to one space
  and trims both ends. On every string that does not both start with a quote and end
  with whitespace this is the result of the steps as first worded. The four examples
  hold.
\<close>

theorem C3_clean_item_name_steps:
  \<open>clean_item_name s =
     spec_steps_after_leading_quote (if startswith s quote then strip (tl s) else s)
   \<and> (\<not> (startswith s quote \<and> endswith_space s) \<longrightarrow> clean_item_name s = cleanIdentifier_spec s)
   \<and> clean_item_name ''6" Sandwich'' = ''6" Sandwich''
   \<and> clean_item_name ''"Chicken"'' = ''Chicken''
   \<and> clean_item_name (''Chicken Sandwich'' @ [CHR 0xAE]) = ''Chicken Sandwich''
   \<and> clean_item_name (''Spicy Chicken'' @ [CHR 0xAE] @ '' Sandwich *'') = ''Spicy Chicken Sandwich''\<close>
proof (intro conjI impI)
  show "clean_item_name s =
     spec_steps_after_leading_quote (if startswith s quote then strip (tl s) else s)"
    by (rule clean_item_name_steps)
next
  assume "\<not> (startswith s quote \<and> endswith_space s)"
  then show "clean_item_name s = cleanIdentifier_spec s"
    by (rule clean_agrees_with_spec)
next
  show \<open>clean_item_name ''6" Sandwich'' = ''6" Sandwich''\<close>
    by (simp add: clean_item_name_def startswith_def endswith_def re_search_digits_quote_def
        digits_quote_at_end_def replace_with_empty_def strip_def lstrip_def rstrip_def
        isspace_def isdecimal_def quote_def)
next
  show \<open>clean_item_name ''"Chicken"'' = ''Chicken''\<close>
    by (simp add: clean_item_name_def startswith_def endswith_def re_search_digits_quote_def
        digits_quote_at_end_def replace_with_empty_def strip_def lstrip_def rstrip_def
        isspace_def isdecimal_def quote_def)
next
  show \<open>clean_item_name (''Chicken Sandwich'' @ [CHR 0xAE]) = ''Chicken Sandwich''\<close>
    by (simp add: clean_item_name_def startswith_def endswith_def re_search_digits_quote_def
        digits_quote_at_end_def replace_with_empty_def strip_def lstrip_def rstrip_def
        isspace_def isdecimal_def quote_def)
next
  show \<open>clean_item_name (''Spicy Chicken'' @ [CHR 0xAE] @ '' Sandwich *'') = ''Spicy Chicken Sandwich''\<close>
    by (simp add: clean_item_name_def startswith_def endswith_def re_search_digits_quote_def
        digits_quote_at_end_def replace_with_empty_def strip_def lstrip_def rstrip_def
        isspace_def isdecimal_def quote_def)
qed

theorem C3_clean_item_name_steps_witness:
  \<open>\<not> (startswith ''Chicken" '' quote \<and> endswith_space ''Chicken" '')
   \<and> clean_item_name ''Chicken" '' = cleanIdentifier_spec ''Chicken" ''
   \<and> cleanIdentifier_spec ''Chicken" '' = ''Chicken"''\<close>
proof -
  have h: \<open>\<not> (startswith ''Chicken" '' quote \<and> endswith_space ''Chicken" '')\<close>
    by (simp add: startswith_def quote_def)
  have v: \<open>cleanIdentifier_spec ''Chicken" '' = ''Chicken"''\<close>
    by (simp add: cleanIdentifier_spec_def spec_steps_after_leading_quote_def
        startswith_def endswith_def preceded_by_digit_def remove_symbols_def strip_def lstrip_def
        rstrip_def isspace_def isdecimal_def quote_def)
  from C3_clean_item_name_steps [of \<open>''Chicken" ''\<close>] h v show ?thesis by blast
qed

section \<open>Dropping incomplete rows (C8)\<close>

lemma isna_iff: "isna c \<longleftrightarrow> c = NaN"
  by (cases c) simp_all

lemma drop_nulls_filter: "drop_nulls df = filter (\<lambda>r. NaN \<notin> set (cells r)) df"
  by (induction df) (auto simp: list_ex_iff isna_iff)

text \<open>
  C8. \<open>drop_nulls\<close> returns exactly the rows without a missing value in any column:
  it is the filter of the table by that test, so the survivors keep their relative
  order (the result is a subsequence of the input) and the row count never grows.
\<close>

theorem C8_drop_nulls:
  "drop_nulls df = filter (\<lambda>r. NaN \<notin> set (cells r)) df
   \<and> set (drop_nulls df) = {r \<in> set df. \<forall>c \<in> set (cells r). c \<noteq> NaN}
   \<and> length (drop_nulls df) \<le> length df
   \<and> subseq (drop_nulls df) df"
proof (intro conjI)
  show "drop_nulls df = filter (\<lambda>r. NaN \<notin> set (cells r)) df"
    by (rule drop_nulls_filter)
  show "set (drop_nulls df) = {r \<in> set df. \<forall>c \<in> set (cells r). c \<noteq> NaN}"
    unfolding drop_nulls_filter by auto
  show "length (drop_nulls df) \<le> length df"
    unfolding drop_nulls_filter by (rule length_filter_le)
  show "subseq (drop_nulls df) df"
    unfolding drop_nulls_filter by (rule subseq_filter_left)
qed

theorem C8_drop_nulls_witness:
  "drop_nulls
     [\<lparr>csv_item = Str ''Chicken Sandwich'', csv_fields = [Num 500]\<rparr>,
      \<lparr>csv_item = NaN, csv_fields = [Num 600]\<rparr>,
      \<lparr>csv_item = Str ''Burger'', csv_fields = [NaN]\<rparr>]
     = [\<lparr>csv_item = Str ''Chicken Sandwich'', csv_fields = [Num 500]\<rparr>]
   \<and> subseq [\<lparr>csv_item = Str ''Chicken Sandwich'', csv_fields = [Num 500]\<rparr>]
        [\<lparr>csv_item = Str ''Chicken Sandwich'', csv_fields = [Num 500]\<rparr>,
         \<lparr>csv_item = NaN, csv_fields = [Num 600]\<rparr>,
         \<lparr>csv_item = Str ''Burger'', csv_fields = [NaN]\<rparr>]"
  using C8_drop_nulls [of "[\<lparr>csv_item = Str ''Chicken Sandwich'', csv_fields = [Num 500]\<rparr>,
      \<lparr>csv_item = NaN, csv_fields = [Num 600]\<rparr>,
      \<lparr>csv_item = Str ''Burger'', csv_fields = [NaN]\<rparr>]"]
  by (simp add: cells_def)

section \<open>Ingestion of a row without item name (C9)\<close>

lemma chunks_of_Nil: "chunks_of n [] = []"
  by (subst chunks_of.simps) simp

lemma chunks_of_nonempty:
  "0 < n \<Longrightarrow> xs \<noteq> [] \<Longrightarrow> chunks_of n xs = take n xs # chunks_of n (drop n xs)"
  by (subst chunks_of.simps) simp

lemma concat_chunks_of: "0 < n \<Longrightarrow> concat (chunks_of n xs) = xs"
proof (induction n xs rule: chunks_of.induct)
  case (1 n xs)
  show ?case
  proof (cases "xs = []")
    case True
    then show ?thesis by (simp add: chunks_of_Nil)
  next
    case False
    with 1 have "concat (chunks_of n (drop n xs)) = drop n xs" by simp
    with False 1(2) show ?thesis
      by (simp add: chunks_of_nonempty)
  qed
qed

lemma apply_series_clean_fails:
  assumes "NaN \<in> set items"
  shows "apply_series clean_item_name_cell items = Inl AttributeError"
  using assms
proof (induction items)
  case Nil
  then show ?case by simp
next
  case (Cons c cs)
  show ?case
  proof (cases c)
    case NaN
    then show ?thesis by (simp add: clean_item_name_cell_def)
  next
    case (Str s)
    with Cons show ?thesis by (simp add: clean_item_name_cell_def)
  next
    case (Num x)
    then show ?thesis by (simp add: clean_item_name_cell_def)
  qed
qed

lemma load_chunks_fails:
  assumes "\<exists>r \<in> set (concat chunks). csv_item r = NaN"
  shows "\<exists>e. fst (load_chunks ins chunks db) = Some e"
  using assms
proof (induction chunks arbitrary: db)
  case Nil
  then show ?case by simp
next
  case (Cons chunk rest)
  show ?case
  proof (cases "\<exists>r \<in> set chunk. csv_item r = NaN")
    case True
    then have "NaN \<in> set (map csv_item chunk)" by force
    then have "apply_series clean_item_name_cell (map csv_item chunk) = Inl AttributeError"
      by (rule apply_series_clean_fails)
    then show ?thesis by simp
  next
    case False
    with Cons.prems have "\<exists>r \<in> set (concat rest). csv_item r = NaN" by auto
    then have ih: "\<exists>e. fst (load_chunks ins rest d) = Some e" for d
      by (rule Cons.IH)
    show ?thesis
      using ih by (auto simp: Let_def split: sum.splits)
  qed
qed

lemma load_chunks_attribute_error:
  assumes "\<exists>r \<in> set (concat chunks). csv_item r = NaN"
    and "\<forall>d c. \<exists>d'. ins d c = Inr d'"
  shows "fst (load_chunks ins chunks db) = Some AttributeError"
  using assms(1)
proof (induction chunks arbitrary: db)
  case Nil
  then show ?case by simp
next
  case (Cons chunk rest)
  show ?case
  proof (cases "\<exists>r \<in> set chunk. csv_item r = NaN")
    case True
    then have "NaN \<in> set (map csv_item chunk)" by force
    then have "apply_series clean_item_name_cell (map csv_item chunk) = Inl AttributeError"
      by (rule apply_series_clean_fails)
    then show ?thesis by simp
  next
    case False
    with Cons.prems have "\<exists>r \<in> set (concat rest). csv_item r = NaN" by auto
    then have ih: "fst (load_chunks ins rest d) = Some AttributeError" for d
      by (rule Cons.IH)
    have "apply_series clean_item_name_cell (map csv_item chunk) \<noteq> Inl e
            \<or> e = AttributeError" for e
      by (induction chunk) (auto simp: clean_item_name_cell_def split: cell.splits sum.splits)
    then show ?thesis
      using ih assms(2) by (auto simp: Let_def split: sum.splits) (metis Inl_Inr_False)+
  qed
qed

text \<open>
  C9. When some row of the source has no item name, \<open>load_csv_to_db\<close> fails: the
  cleaning of the item column comes before \<open>drop_nulls\<close> and raises on the missing
  value. Whenever the chunk plan is valid and the database accepts every chunk, the
  error is the \<open>AttributeError\<close> of \<open>clean_item_name\<close>. \<open>drop_nulls\<close> alone would have
  filtered the row out.
\<close>

theorem C9_missing_item_fails_ingestion:
  assumes "r \<in> set csv_file" and "csv_item r = NaN"
  shows "(\<exists>e. fst (load_csv_to_db ins a p csv_file f db) = Some e)
       \<and> ((\<exists>n. DataLoader_calculate_chunk_size a p (int (length csv_file)) f = Inr n \<and> 1 \<le> n)
            \<and> (\<forall>d c. \<exists>d'. ins d c = Inr d')
          \<longrightarrow> fst (load_csv_to_db ins a p csv_file f db) = Some AttributeError)
       \<and> r \<notin> set (drop_nulls csv_file)"
proof -
  have bad: "0 < n \<Longrightarrow> \<exists>r \<in> set (concat (chunks_of n csv_file)). csv_item r = NaN" for n
    using assms by (auto simp: concat_chunks_of)
  have fails: "\<exists>e. fst (load_csv_to_db ins a p csv_file f db) = Some e"
  proof (cases "DataLoader_calculate_chunk_size a p (int (length csv_file)) f")
    case (Inl e)
    then show ?thesis by (simp add: load_csv_to_db_def)
  next
    case (Inr n)
    show ?thesis
    proof (cases "n < 1")
      case True
      with Inr show ?thesis by (simp add: load_csv_to_db_def)
    next
      case False
      then have "0 < nat n" by simp
      then have "\<exists>e. fst (load_chunks ins (chunks_of (nat n) csv_file) db) = Some e"
        by (intro load_chunks_fails bad)
      with Inr False show ?thesis by (simp add: load_csv_to_db_def)
    qed
  qed
  have attr: "fst (load_csv_to_db ins a p csv_file f db) = Some AttributeError"
    if h: "(\<exists>n. DataLoader_calculate_chunk_size a p (int (length csv_file)) f = Inr n \<and> 1 \<le> n)
            \<and> (\<forall>d c. \<exists>d'. ins d c = Inr d')"
  proof -
    from h obtain n where n: "DataLoader_calculate_chunk_size a p (int (length csv_file)) f = Inr n"
      and pos: "1 \<le> n" by blast
    from pos have "0 < nat n" by simp
    then have "\<exists>r \<in> set (concat (chunks_of (nat n) csv_file)). csv_item r = NaN"
      by (rule bad)
    moreover from h have "\<forall>d c. \<exists>d'. ins d c = Inr d'" by (rule conjunct2)
    ultimately have "fst (load_chunks ins (chunks_of (nat n) csv_file) db) = Some AttributeError"
      by (rule load_chunks_attribute_error)
    with n pos show "fst (load_csv_to_db ins a p csv_file f db) = Some AttributeError"
      by (simp add: load_csv_to_db_def)
  qed
  have dropped: "r \<notin> set (drop_nulls csv_file)"
    using assms by (simp add: drop_nulls_filter cells_def)
  from fails attr dropped show ?thesis by blast
qed

theorem C9_missing_item_fails_ingestion_witness:
  "fst (load_csv_to_db (\<lambda>d c. Inr (d @ c)) 1000 100
     [\<lparr>csv_item = Str ''Burger'', csv_fields = [Num 500]\<rparr>,
      \<lparr>csv_item = NaN, csv_fields = [Num 600]\<rparr>,
      \<lparr>csv_item = Str ''Fries'', csv_fields = [Num 300]\<rparr>] (1/2) [])
   = Some AttributeError
  \<and> \<lparr>csv_item = NaN, csv_fields = [Num 600]\<rparr> \<notin> set (drop_nulls
     [\<lparr>csv_item = Str ''Burger'', csv_fields = [Num 500]\<rparr>,
      \<lparr>csv_item = NaN, csv_fields = [Num 600]\<rparr>,
      \<lparr>csv_item = Str ''Fries'', csv_fields = [Num 300]\<rparr>])"
proof -
  define rows where "rows = [\<lparr>csv_item = Str ''Burger'', csv_fields = [Num 500]\<rparr>,
      \<lparr>csv_item = NaN, csv_fields = [Num 600]\<rparr>,
      \<lparr>csv_item = Str ''Fries'', csv_fields = [Num 300]\<rparr>]"
  define r where "r = \<lparr>csv_item = NaN, csv_fields = [Num 600]\<rparr>"
  define ins where "ins = (\<lambda>d c. Inr (d @ c) :: py_error + csv_row list)"
  have mem: "r \<in> set rows" by (simp add: r_def rows_def)
  have nan: "csv_item r = NaN" by (simp add: r_def)
  have len: "int (length rows) = 3" by (simp add: rows_def)
  have size: "DataLoader_calculate_chunk_size 1000 100 (int (length rows)) (1/2) = Inr 3"
    unfolding len
    by (simp add: DataLoader_calculate_chunk_size_def get_available_memory_def Let_def)
  have ok: "\<forall>d c. \<exists>d'. ins d c = Inr d'" by (simp add: ins_def)
  have pre: "(\<exists>n. DataLoader_calculate_chunk_size 1000 100 (int (length rows)) (1/2) = Inr n \<and> 1 \<le> n)
            \<and> (\<forall>d c. \<exists>d'. ins d c = Inr d')"
    using size ok by simp
  have "fst (load_csv_to_db ins 1000 100 rows (1/2) []) = Some AttributeError
        \<and> r \<notin> set (drop_nulls rows)"
    using C9_missing_item_fails_ingestion [OF mem nan, of ins 1000 100 "1/2" "[]"] pre
    by blast
  then show ?thesis
    unfolding rows_def r_def ins_def .
qed

section \<open>Translating one item (C4)\<close>

lemma translate_words_ok:
  "map (\<lambda>w. tr w dest) ws = map Inr ts \<Longrightarrow>
   translate_words tr dest ws = (Inr ts, map (\<lambda>w. (w, dest)) ws)"
proof (induction ws arbitrary: ts)
  case Nil
  then show ?case by simp
next
  case (Cons w ws)
  then obtain t ts' where ts: "ts = t # ts'" by (cases ts) auto
  with Cons.prems have "tr w dest = Inr t" and "map (\<lambda>w. tr w dest) ws = map Inr ts'"
    by simp_all
  with Cons.IH [of ts'] ts show ?case by simp
qed

lemma translate_words_calls: "prefix (snd (translate_words tr dest ws)) (map (\<lambda>w. (w, dest)) ws)"
  by (induction ws) (auto split: sum.splits prod.splits)

lemma translate_words_Inl:
  "fst (translate_words tr dest ws) = Inl e \<Longrightarrow> \<exists>w \<in> set ws. tr w dest = Inl e"
  by (induction ws) (auto split: sum.splits prod.splits)

lemma translate_words_fails:
  "w \<in> set ws \<Longrightarrow> tr w dest = Inl e' \<Longrightarrow> \<exists>e. fst (translate_words tr dest ws) = Inl e"
  by (induction ws) (auto split: sum.splits prod.splits)

lemma split_from_tokens:
  "\<forall>c \<in> set w. \<not> isspace c \<Longrightarrow>
   \<forall>t \<in> set (split_from w s). t \<noteq> [] \<and> (\<forall>c \<in> set t. \<not> isspace c)"
proof (induction s arbitrary: w)
  case Nil
  then show ?case by auto
next
  case (Cons a s)
  show ?case
  proof (cases "isspace a")
    case True
    have "\<forall>t \<in> set (split_from [] s). t \<noteq> [] \<and> (\<forall>c \<in> set t. \<not> isspace c)"
      by (rule Cons.IH) simp
    with True Cons.prems show ?thesis by auto
  next
    case False
    with Cons.prems have "\<forall>c \<in> set (w @ [a]). \<not> isspace c" by auto
    then have "\<forall>t \<in> set (split_from (w @ [a]) s). t \<noteq> [] \<and> (\<forall>c \<in> set t. \<not> isspace c)"
      by (rule Cons.IH)
    with False show ?thesis by simp
  qed
qed

lemma split_from_concat:
  "concat (split_from w s) = w @ filter (\<lambda>c. \<not> isspace c) s"
  by (induction s arbitrary: w) auto

text \<open>
  C4. On an exact key of the curated dictionary \<open>translate_item\<close> returns the curated
  value and makes no call to the collaborator. Otherwise it splits the item on
  whitespace (the tokens are non-empty, free of whitespace, and together hold the
  non-whitespace characters of the item in order), calls the collaborator on the
  tokens one by one in order, each with the target language \<open>el\<close>, and, when all the
  calls succeed, returns the translated tokens joined with single spaces.
\<close>

theorem C4_translate_item:
  "(d item = Some v \<longrightarrow> translate_item d tr item = (Inr v, []))
   \<and> (d item = None \<and> map (\<lambda>w. tr w ''el'') (split item) = map Inr ts \<longrightarrow>
        translate_item d tr item = (Inr (join '' '' ts), map (\<lambda>w. (w, ''el'')) (split item)))
   \<and> (d item = None \<longrightarrow>
        prefix (snd (translate_item d tr item)) (map (\<lambda>w. (w, ''el'')) (split item)))
   \<and> (\<forall>w \<in> set (split item). w \<noteq> [] \<and> (\<forall>c \<in> set w. \<not> isspace c))
   \<and> concat (split item) = filter (\<lambda>c. \<not> isspace c) item"
proof (intro conjI impI)
  assume "d item = Some v"
  then show "translate_item d tr item = (Inr v, [])"
    by (simp add: translate_item_def)
next
  assume h: "d item = None \<and> map (\<lambda>w. tr w ''el'') (split item) = map Inr ts"
  then have "translate_words tr ''el'' (split item) = (Inr ts, map (\<lambda>w. (w, ''el'')) (split item))"
    using translate_words_ok by blast
  with h show "translate_item d tr item = (Inr (join '' '' ts), map (\<lambda>w. (w, ''el'')) (split item))"
    by (simp add: translate_item_def google_translate_word_by_word_def)
next
  assume "d item = None"
  then show "prefix (snd (translate_item d tr item)) (map (\<lambda>w. (w, ''el'')) (split item))"
    using translate_words_calls [of tr "''el''" "split item"]
    by (auto simp: translate_item_def google_translate_word_by_word_def split: prod.splits sum.splits)
next
  show "\<forall>w \<in> set (split item). w \<noteq> [] \<and> (\<forall>c \<in> set w. \<not> isspace c)"
    unfolding split_def by (rule split_from_tokens) simp
next
  show "concat (split item) = filter (\<lambda>c. \<not> isspace c) item"
    by (simp add: split_def split_from_concat)
qed

theorem C4_translate_item_witness:
  "translate_item [''Big Mac'' \<mapsto> ''Mpigk Mak''] (\<lambda>w dest. Inr (dest @ '':'' @ w)) ''Big Mac''
     = (Inr ''Mpigk Mak'', [])
   \<and> translate_item [''Big Mac'' \<mapsto> ''Mpigk Mak''] (\<lambda>w dest. Inr (dest @ '':'' @ w)) ''Large  Fries''
     = (Inr ''el:Large el:Fries'', [(''Large'', ''el''), (''Fries'', ''el'')])"
proof -
  let ?d = "[''Big Mac'' \<mapsto> ''Mpigk Mak'']"
  let ?tr = "\<lambda>w dest. Inr (dest @ '':'' @ w) :: py_error + string"
  have hit: "?d ''Big Mac'' = Some ''Mpigk Mak''" by simp
  have miss: "?d ''Large  Fries'' = None" by simp
  have sp: "split ''Large  Fries'' = [''Large'', ''Fries'']"
    by (simp add: split_def isspace_def)
  have tok: "map (\<lambda>w. ?tr w ''el'') (split ''Large  Fries'') = map Inr [''el:Large'', ''el:Fries'']"
    by (simp add: sp)
  from C4_translate_item [of ?d "''Big Mac''" "''Mpigk Mak''" ?tr "[]"] hit
  have a: "translate_item ?d ?tr ''Big Mac'' = (Inr ''Mpigk Mak'', [])" by blast
  from C4_translate_item [of ?d "''Large  Fries''" "[]" ?tr "[''el:Large'', ''el:Fries'']"] miss tok
  have b: "translate_item ?d ?tr ''Large  Fries''
     = (Inr (join '' '' [''el:Large'', ''el:Fries'']), map (\<lambda>w. (w, ''el'')) (split ''Large  Fries''))"
    by blast
  from a b show ?thesis by (simp add: sp)
qed

section \<open>Enrichment: failure and committed chunks (C7)\<close>

lemma map_Inr_eq: "map Inr xs = map Inr ys \<longleftrightarrow> xs = ys"
  by (simp add: inj_map_eq_map)

lemma apply_series_Inr_iff: "apply_series f xs = Inr ys \<longleftrightarrow> map f xs = map Inr ys"
proof (induction xs arbitrary: ys)
  case Nil
  then show ?case by auto
next
  case (Cons x xs)
  show ?case
  proof (cases "f x")
    case (Inl e)
    then show ?thesis by (cases ys) auto
  next
    case (Inr y)
    show ?thesis
    proof (cases "apply_series f xs")
      case (Inl e)
      with Cons.IH have "map f xs \<noteq> map Inr zs" for zs by auto
      with Inl Inr show ?thesis by (cases ys) auto
    next
      case r: (Inr zs)
      with Cons.IH [of zs] have m: "map f xs = map Inr zs" by simp
      with r Inr show ?thesis by (cases ys) (auto simp: map_Inr_eq)
    qed
  qed
qed

lemma apply_series_Inl: "apply_series f xs = Inl e \<Longrightarrow> \<exists>x \<in> set xs. f x = Inl e"
  by (induction xs) (auto split: sum.splits)

lemma update_other:
  assumes "i \<notin> row_id ` set xs"
  shows "map (\<lambda>r. if row_id r = i then r\<lparr>row_item_gr := v\<rparr> else r) xs = xs"
  using assms by (intro map_idI) force

lemma update_one:
  assumes "row_id c \<notin> row_id ` set done" and "row_id c \<notin> row_id ` set rest"
  shows "map (\<lambda>r. if row_id r = row_id c then r\<lparr>row_item_gr := v\<rparr> else r) (done @ c # rest)
           = done @ c\<lparr>row_item_gr := v\<rparr> # rest"
  by (simp add: update_other [OF assms(1)] update_other [OF assms(2)])

lemma update_rows_state:
  assumes "distinct (map row_id (done @ chunk @ rest))" and "length grs = length chunk"
    and "working db = done @ chunk @ rest"
  shows "working (update_rows (zip chunk grs) db)
           = done @ map2 (\<lambda>r g. r\<lparr>row_item_gr := Some g\<rparr>) chunk grs @ rest
       \<and> committed (update_rows (zip chunk grs) db) = committed db"
  using assms
proof (induction chunk arbitrary: grs "done" db)
  case Nil
  then show ?case by simp
next
  case (Cons c cs)
  then obtain g gs where grs: "grs = g # gs" by (cases grs) auto
  let ?c = "c\<lparr>row_item_gr := Some g\<rparr>"
  let ?db = "execute_update_item_gr (Some g) (row_id c) db"
  from Cons.prems(1) have notin: "row_id c \<notin> row_id ` set done" "row_id c \<notin> row_id ` set (cs @ rest)"
    by auto
  have w: "working ?db = (done @ [?c]) @ cs @ rest"
    using update_one [OF notin, of "Some g"] Cons.prems(3)
    by (simp add: execute_update_item_gr_def)
  have c: "committed ?db = committed db"
    by (simp add: execute_update_item_gr_def)
  have d: "distinct (map row_id ((done @ [?c]) @ cs @ rest))"
    using Cons.prems(1) by simp
  have l: "length gs = length cs" using Cons.prems(2) grs by simp
  from Cons.IH [OF d l w] c grs show ?case by simp
qed

lemma translated_id: "row_id (translated d tr r) = row_id r"
  by (simp add: translated_def split: sum.splits)

lemma translated_chunk:
  assumes "map (\<lambda>item. fst (translate_item d tr item)) (map row_item chunk) = map Inr grs"
  shows "map2 (\<lambda>r g. r\<lparr>row_item_gr := Some g\<rparr>) chunk grs = map (translated d tr) chunk
       \<and> (\<forall>r \<in> set chunk. \<not> item_fails d tr r) \<and> length grs = length chunk"
  using assms
proof (induction chunk arbitrary: grs)
  case Nil
  then show ?case by simp
next
  case (Cons c cs)
  then obtain g gs where grs: "grs = g # gs" by (cases grs) auto
  with Cons.prems have hd: "fst (translate_item d tr (row_item c)) = Inr g"
    and tl: "map (\<lambda>item. fst (translate_item d tr item)) (map row_item cs) = map Inr gs"
    by simp_all
  from Cons.IH [OF tl] hd grs show ?case
    by (simp add: translated_def item_fails_def)
qed

lemma populate_chunks_success:
  "populate_chunks d tr chunks db = (None, db') \<Longrightarrow> \<forall>r \<in> set (concat chunks). \<not> item_fails d tr r"
proof (induction chunks arbitrary: db)
  case Nil
  then show ?case by simp
next
  case (Cons chunk rest)
  show ?case
  proof (cases "apply_series (\<lambda>item. fst (translate_item d tr item)) (map row_item chunk)")
    case (Inl e)
    with Cons.prems show ?thesis by simp
  next
    case (Inr grs)
    then have "\<forall>r \<in> set chunk. \<not> item_fails d tr r"
      using translated_chunk by (simp add: apply_series_Inr_iff)
    moreover have "\<forall>r \<in> set (concat rest). \<not> item_fails d tr r"
      using Cons.prems Inr by (intro Cons.IH [of "commit (update_rows (zip chunk grs) db)"]) simp
    ultimately show ?thesis by auto
  qed
qed

lemma populate_chunks_failure:
  assumes "populate_chunks d tr chunks db = (Some e, db')"
    and "distinct (map row_id (done @ concat chunks))"
    and "working db = done @ concat chunks"
  shows "\<exists>pre bad post. chunks = pre @ bad # post
          \<and> (\<forall>r \<in> set (concat pre). \<not> item_fails d tr r)
          \<and> (\<exists>r \<in> set bad. fst (translate_item d tr (row_item r)) = Inl e)
          \<and> working db' = done @ map (translated d tr) (concat pre) @ concat (bad # post)
          \<and> committed db' = (if pre = [] then committed db else working db')"
  using assms
proof (induction chunks arbitrary: db "done")
  case Nil
  then show ?case by simp
next
  case (Cons chunk rest)
  show ?case
  proof (cases "apply_series (\<lambda>item. fst (translate_item d tr item)) (map row_item chunk)")
    case (Inl e0)
    with Cons.prems(1) have e: "e0 = e" and db: "db' = db" by simp_all
    from Inl e have "\<exists>r \<in> set chunk. fst (translate_item d tr (row_item r)) = Inl e"
      using apply_series_Inl [of "\<lambda>item. fst (translate_item d tr item)" "map row_item chunk" e]
      by auto
    with db Cons.prems(3) have
      "chunk # rest = [] @ chunk # rest
       \<and> (\<forall>r \<in> set (concat []). \<not> item_fails d tr r)
       \<and> (\<exists>r \<in> set chunk. fst (translate_item d tr (row_item r)) = Inl e)
       \<and> working db' = done @ map (translated d tr) (concat []) @ concat (chunk # rest)
       \<and> committed db' = (if ([]::db_row list list) = [] then committed db else working db')"
      by simp
    then show ?thesis by blast
  next
    case (Inr grs)
    let ?db1 = "commit (update_rows (zip chunk grs) db)"
    from Inr have m: "map (\<lambda>item. fst (translate_item d tr item)) (map row_item chunk) = map Inr grs"
      by (simp add: apply_series_Inr_iff)
    note tc = translated_chunk [OF m]
    from Cons.prems(2) have dist: "distinct (map row_id (done @ chunk @ concat rest))" by simp
    from Cons.prems(3) have wk: "working db = done @ chunk @ concat rest" by simp
    from tc have len: "length grs = length chunk" by simp
    from update_rows_state [OF dist len wk] tc
    have w1: "working ?db1 = (done @ map (translated d tr) chunk) @ concat rest"
      and c1: "committed ?db1 = working ?db1"
      by (simp_all add: commit_def)
    have ids: "map (row_id \<circ> translated d tr) chunk = map row_id chunk"
      by (simp add: translated_id)
    have d1: "distinct (map row_id ((done @ map (translated d tr) chunk) @ concat rest))"
      using dist by (simp add: ids)
    from Cons.prems(1) Inr have run: "populate_chunks d tr rest ?db1 = (Some e, db')" by simp
    from Cons.IH [OF run d1 w1] obtain pre bad post where
      rest: "rest = pre @ bad # post"
      and ok: "\<forall>r \<in> set (concat pre). \<not> item_fails d tr r"
      and bad: "\<exists>r \<in> set bad. fst (translate_item d tr (row_item r)) = Inl e"
      and w': "working db' = (done @ map (translated d tr) chunk) @ map (translated d tr) (concat pre)
                 @ concat (bad # post)"
      and c': "committed db' = (if pre = [] then committed ?db1 else working db')"
      by blast
    have cm: "committed db' = working db'"
    proof (cases "pre = []")
      case True
      with w' rest w1 c1 c' show ?thesis by simp
    next
      case False
      with c' show ?thesis by simp
    qed
    have "chunk # rest = (chunk # pre) @ bad # post
       \<and> (\<forall>r \<in> set (concat (chunk # pre)). \<not> item_fails d tr r)
       \<and> (\<exists>r \<in> set bad. fst (translate_item d tr (row_item r)) = Inl e)
       \<and> working db' = done @ map (translated d tr) (concat (chunk # pre)) @ concat (bad # post)
       \<and> committed db' = (if chunk # pre = [] then committed db else working db')"
      using rest ok bad w' cm tc by auto
    then show ?thesis by blast
  qed
qed

lemma translate_item_fails:
  assumes "d item = None" and "w \<in> set (split item)" and "tr w ''el'' = Inl e'"
  shows "\<exists>e. fst (translate_item d tr item) = Inl e"
proof -
  from translate_words_fails [of w "split item" tr "''el''" e', OF assms(2,3)]
  obtain e where "fst (translate_words tr ''el'' (split item)) = Inl e" by blast
  with assms(1) show ?thesis
    by (cases "translate_words tr ''el'' (split item)")
       (auto simp: translate_item_def google_translate_word_by_word_def)
qed

lemma translate_item_Inl:
  assumes "fst (translate_item d tr item) = Inl e"
  shows "d item = None \<and> (\<exists>w \<in> set (split item). tr w ''el'' = Inl e)"
proof (cases "d item")
  case None
  with assms have "fst (translate_words tr ''el'' (split item)) = Inl e"
    by (cases "translate_words tr ''el'' (split item)")
       (auto simp: translate_item_def google_translate_word_by_word_def split: sum.splits)
  with None show ?thesis using translate_words_Inl by blast
next
  case (Some v)
  with assms show ?thesis by (simp add: translate_item_def)
qed

text \<open>
  C7. In an enrichment run over a table with distinct keys and no open transaction, for
  a positive one-row footprint: a collaborator failure on any token of an item outside
  the dictionary fails the translation of the whole item (the result is the error,
  never a text), and a translation fails only so; a row whose item fails aborts the
  run; and when the run aborts, the chunks split into those before the first chunk
  that holds a failing item, that chunk, and the rest: the rows of the former are
  enriched, the rows of the failing chunk and of all later chunks are as they were,
  and the committed table is this very table.
\<close>

theorem C7_enrichment_failure:
  assumes "0 < p" and "distinct (map row_id (working db))" and "committed db = working db"
  shows "(d item = None \<and> w \<in> set (split item) \<and> tr w ''el'' = Inl e'
            \<longrightarrow> (\<exists>e. fst (translate_item d tr item) = Inl e))
       \<and> (fst (translate_item d tr item) = Inl e
            \<longrightarrow> d item = None \<and> (\<exists>w \<in> set (split item). tr w ''el'' = Inl e))
       \<and> (r \<in> set (working db) \<and> item_fails d tr r
            \<longrightarrow> (\<exists>e. fst (populate_item_gr_column d tr a f p db) = Some e))
       \<and> (populate_item_gr_column d tr a f p db = (Some e, db') \<longrightarrow>
            (\<exists>c pre bad post.
               TranslatorModule_calculate_chunk_size a f p = Inr c \<and> 1 \<le> c
               \<and> chunks_of (nat c) (working db) = pre @ bad # post
               \<and> (\<forall>r \<in> set (concat pre). \<not> item_fails d tr r)
               \<and> (\<exists>r \<in> set bad. item_fails d tr r)
               \<and> working db' = map (translated d tr) (concat pre) @ concat (bad # post)
               \<and> committed db' = working db'))"
proof -
  obtain c where c: "TranslatorModule_calculate_chunk_size a f p = Inr c" and pos: "1 \<le> c"
    using translator_chunk_size_value [OF assms(1), of a f] by simp
  from pos have n: "0 < nat c" by simp
  have run: "populate_item_gr_column d tr a f p db
               = populate_chunks d tr (chunks_of (nat c) (working db)) db"
    by (simp add: populate_item_gr_column_def c)
  have cat: "concat (chunks_of (nat c) (working db)) = working db"
    using n by (rule concat_chunks_of)
  have A: "\<exists>e. fst (translate_item d tr item) = Inl e"
    if "d item = None \<and> w \<in> set (split item) \<and> tr w ''el'' = Inl e'"
    using that translate_item_fails by blast
  have A': "d item = None \<and> (\<exists>w \<in> set (split item). tr w ''el'' = Inl e)"
    if "fst (translate_item d tr item) = Inl e"
    using that by (rule translate_item_Inl)
  have B: "\<exists>e. fst (populate_item_gr_column d tr a f p db) = Some e"
    if h: "r \<in> set (working db) \<and> item_fails d tr r"
  proof (cases "populate_chunks d tr (chunks_of (nat c) (working db)) db")
    case (Pair res db1)
    show ?thesis
    proof (cases res)
      case None
      with Pair have "\<forall>r \<in> set (concat (chunks_of (nat c) (working db))). \<not> item_fails d tr r"
        by (intro populate_chunks_success [of d tr _ db db1]) simp
      with h cat show ?thesis by auto
    next
      case (Some e1)
      with Pair run show ?thesis by simp
    qed
  qed
  have C: "\<exists>c pre bad post.
               TranslatorModule_calculate_chunk_size a f p = Inr c \<and> 1 \<le> c
               \<and> chunks_of (nat c) (working db) = pre @ bad # post
               \<and> (\<forall>r \<in> set (concat pre). \<not> item_fails d tr r)
               \<and> (\<exists>r \<in> set bad. item_fails d tr r)
               \<and> working db' = map (translated d tr) (concat pre) @ concat (bad # post)
               \<and> committed db' = working db'"
    if h: "populate_item_gr_column d tr a f p db = (Some e, db')"
  proof -
    from h run have r: "populate_chunks d tr (chunks_of (nat c) (working db)) db = (Some e, db')"
      by simp
    have dist: "distinct (map row_id ([] @ concat (chunks_of (nat c) (working db))))"
      using assms(2) cat by simp
    have wk: "working db = [] @ concat (chunks_of (nat c) (working db))"
      using cat by simp
    from populate_chunks_failure [OF r dist wk] obtain pre bad post where
      split: "chunks_of (nat c) (working db) = pre @ bad # post"
      and ok: "\<forall>r \<in> set (concat pre). \<not> item_fails d tr r"
      and bad: "\<exists>r \<in> set bad. fst (translate_item d tr (row_item r)) = Inl e"
      and w': "working db' = [] @ map (translated d tr) (concat pre) @ concat (bad # post)"
      and c': "committed db' = (if pre = [] then committed db else working db')"
      by blast
    from bad obtain r0 where "r0 \<in> set bad" and "fst (translate_item d tr (row_item r0)) = Inl e"
      by blast
    then have "r0 \<in> set bad \<and> item_fails d tr r0"
      by (simp add: item_fails_def)
    then have bad': "\<exists>r \<in> set bad. item_fails d tr r" by blast
    have cm: "committed db' = working db'"
    proof (cases "pre = []")
      case True
      with c' w' split cat assms(3) show ?thesis by simp
    next
      case False
      with c' show ?thesis by simp
    qed
    from c pos split ok bad' w' cm show ?thesis by auto
  qed
  from A A' B C show ?thesis by blast
qed

theorem C7_enrichment_failure_witness:
  "populate_item_gr_column [''Burger'' \<mapsto> ''Mpernker'']
     (\<lambda>w dest. if w = ''Bad'' then Inl (TranslationFailure w) else Inr (dest @ '':'' @ w))
     100 (1/2) 50
     \<lparr>committed = [sample_row 1 ''Burger'' SqlNull, sample_row 2 ''Bad Fries'' SqlNull,
                   sample_row 3 ''Cola'' SqlNull],
      working = [sample_row 1 ''Burger'' SqlNull, sample_row 2 ''Bad Fries'' SqlNull,
                 sample_row 3 ''Cola'' SqlNull]\<rparr>
   = (Some (TranslationFailure ''Bad''),
      \<lparr>committed = [(sample_row 1 ''Burger'' SqlNull)\<lparr>row_item_gr := Some ''Mpernker''\<rparr>,
                    sample_row 2 ''Bad Fries'' SqlNull, sample_row 3 ''Cola'' SqlNull],
       working = [(sample_row 1 ''Burger'' SqlNull)\<lparr>row_item_gr := Some ''Mpernker''\<rparr>,
                  sample_row 2 ''Bad Fries'' SqlNull, sample_row 3 ''Cola'' SqlNull]\<rparr>)
   \<and> (\<exists>e. fst (populate_item_gr_column [''Burger'' \<mapsto> ''Mpernker'']
     (\<lambda>w dest. if w = ''Bad'' then Inl (TranslationFailure w) else Inr (dest @ '':'' @ w))
     100 (1/2) 50
     \<lparr>committed = [sample_row 1 ''Burger'' SqlNull, sample_row 2 ''Bad Fries'' SqlNull,
                   sample_row 3 ''Cola'' SqlNull],
      working = [sample_row 1 ''Burger'' SqlNull, sample_row 2 ''Bad Fries'' SqlNull,
                 sample_row 3 ''Cola'' SqlNull]\<rparr>) = Some e)"
proof -
  define d where "d = [''Burger'' \<mapsto> ''Mpernker'']"
  define tr where
    "tr = (\<lambda>w dest. if w = ''Bad'' then Inl (TranslationFailure w) else Inr (dest @ '':'' @ w))"
  define rows where "rows = [sample_row 1 ''Burger'' SqlNull, sample_row 2 ''Bad Fries'' SqlNull,
                   sample_row 3 ''Cola'' SqlNull]"
  define db where "db = \<lparr>committed = rows, working = rows\<rparr>"
  have pos: "(0::int) < 50" by simp
  have dist: "distinct (map row_id (working db))"
    by (simp add: db_def rows_def sample_row_def)
  have cm: "committed db = working db" by (simp add: db_def)
  have size: "TranslatorModule_calculate_chunk_size 100 (1/2) 50 = Inr 1"
    by (simp add: TranslatorModule_calculate_chunk_size_def get_available_memory_def py_int_def Let_def)
  have chunks: "chunks_of (nat 1) rows = [[sample_row 1 ''Burger'' SqlNull],
      [sample_row 2 ''Bad Fries'' SqlNull], [sample_row 3 ''Cola'' SqlNull]]"
    by (simp add: rows_def chunks_of_nonempty chunks_of_Nil)
  have t1: "fst (translate_item d tr ''Burger'') = Inr ''Mpernker''"
    by (simp add: translate_item_def d_def)
  have t2: "fst (translate_item d tr ''Bad Fries'') = Inl (TranslationFailure ''Bad'')"
    by (simp add: translate_item_def d_def google_translate_word_by_word_def split_def
        isspace_def tr_def)
  have sel: "row_item (sample_row i n c) = n" "row_id (sample_row i n c) = i" for i n c
    by (simp_all add: sample_row_def)
  have pc: "populate_item_gr_column d tr 100 (1/2) 50 db
              = populate_chunks d tr (chunks_of (nat 1) rows) db"
    unfolding populate_item_gr_column_def size by (simp add: db_def)
  have run: "populate_item_gr_column d tr 100 (1/2) 50 db
     = (Some (TranslationFailure ''Bad''),
        \<lparr>committed = [(sample_row 1 ''Burger'' SqlNull)\<lparr>row_item_gr := Some ''Mpernker''\<rparr>,
                    sample_row 2 ''Bad Fries'' SqlNull, sample_row 3 ''Cola'' SqlNull],
         working = [(sample_row 1 ''Burger'' SqlNull)\<lparr>row_item_gr := Some ''Mpernker''\<rparr>,
                  sample_row 2 ''Bad Fries'' SqlNull, sample_row 3 ''Cola'' SqlNull]\<rparr>)"
    unfolding pc chunks
    by (simp add: db_def rows_def sel t1 t2 commit_def execute_update_item_gr_def)
  have bad: "sample_row 2 ''Bad Fries'' SqlNull \<in> set (working db)
       \<and> item_fails d tr (sample_row 2 ''Bad Fries'' SqlNull)"
    by (simp add: db_def rows_def item_fails_def sel t2)
  from C7_enrichment_failure [OF pos dist cm, of d _ _ tr _ _ "sample_row 2 ''Bad Fries'' SqlNull" 100 "1/2"] bad
  have "\<exists>e. fst (populate_item_gr_column d tr 100 (1/2) 50 db) = Some e" by blast
  with run show ?thesis
    unfolding d_def tr_def db_def rows_def by simp
qed

section \<open>Classification leaves incomplete rows alone (C5)\<close>

lemma unchanged_but_category_refl: "unchanged_but_category r r"
  by (simp add: unchanged_but_category_def)

lemma unchanged_but_category_trans:
  assumes "unchanged_but_category r r1" and "unchanged_but_category r1 r2"
  shows "unchanged_but_category r r2"
proof -
  from assms(2) have "r2\<lparr>row_category := row_category r1\<rparr> = r1"
    by (simp add: unchanged_but_category_def)
  then have "(r2\<lparr>row_category := row_category r1\<rparr>)\<lparr>row_category := row_category r\<rparr>
               = r1\<lparr>row_category := row_category r\<rparr>"
    by simp
  with assms(1) show ?thesis
    by (simp add: unchanged_but_category_def)
qed

lemma unchanged_but_category_id: "unchanged_but_category r r' \<Longrightarrow> row_id r' = row_id r"
  unfolding unchanged_but_category_def
  by (metis db_row.select_convs(1) db_row.surjective db_row.update_convs(4))

lemma execute_update_category_frame:
  assumes "i < length (working db)"
  shows "unchanged_but_category (working db ! i) (working (execute_update_category v k db) ! i)"
    and "row_id (working db ! i) \<noteq> k \<Longrightarrow>
           working (execute_update_category v k db) ! i = working db ! i"
  using assms by (simp_all add: execute_update_category_def unchanged_but_category_def)

lemma execute_update_category_length:
  "length (working (execute_update_category v k db)) = length (working db)"
  "committed (execute_update_category v k db) = committed db"
  by (simp_all add: execute_update_category_def)

lemma update_categories_frame:
  "length (working (update_categories cls db)) = length (working db)
   \<and> committed (update_categories cls db) = committed db
   \<and> (\<forall>i < length (working db).
        unchanged_but_category (working db ! i) (working (update_categories cls db) ! i)
        \<and> (row_id (working db ! i) \<notin> row_id ` set cls \<longrightarrow>
             working (update_categories cls db) ! i = working db ! i))"
proof (induction cls arbitrary: db)
  case Nil
  then show ?case by (simp add: unchanged_but_category_refl)
next
  case (Cons c cs)
  let ?db1 = "execute_update_category (row_category c) (row_id c) db"
  let ?db' = "update_categories cs ?db1"
  note ih = Cons.IH [of ?db1]
  have len: "length (working ?db') = length (working db)"
    using ih by (simp add: execute_update_category_length)
  have com: "committed ?db' = committed db"
    using ih by (simp add: execute_update_category_length)
  have frame: "unchanged_but_category (working db ! i) (working ?db' ! i)
        \<and> (row_id (working db ! i) \<notin> row_id ` set (c # cs) \<longrightarrow> working ?db' ! i = working db ! i)"
    if i: "i < length (working db)" for i
  proof -
    from i have i1: "i < length (working ?db1)"
      by (simp add: execute_update_category_length)
    note s1 = execute_update_category_frame [where v = "row_category c" and k = "row_id c", OF i]
    from ih i1 have s2: "unchanged_but_category (working ?db1 ! i) (working ?db' ! i)"
      and s3: "row_id (working ?db1 ! i) \<notin> row_id ` set cs \<longrightarrow> working ?db' ! i = working ?db1 ! i"
      by blast+
    have ids: "row_id (working ?db1 ! i) = row_id (working db ! i)"
      using s1(1) by (rule unchanged_but_category_id)
    have a: "unchanged_but_category (working db ! i) (working ?db' ! i)"
      using s1(1) s2 by (rule unchanged_but_category_trans)
    have b: "working ?db' ! i = working db ! i"
      if "row_id (working db ! i) \<notin> row_id ` set (c # cs)"
    proof -
      from that have "row_id (working db ! i) \<noteq> row_id c"
        and "row_id (working db ! i) \<notin> row_id ` set cs" by auto
      with s1(2) s3 ids show ?thesis by simp
    qed
    from a b show ?thesis by blast
  qed
  from len com frame show ?case by simp
qed

lemma classify_items_ids:
  assumes "classify_items parse ft fp k df = Inr cls"
  shows "row_id ` set cls \<subseteq> row_id ` {r \<in> set df. complete_features parse r}"
proof -
  from assms obtain labels where
    cls: "cls = map2 (\<lambda>r c. r\<lparr>row_category := category_mapping c\<rparr>)
                  (filter (complete_features parse) df) labels"
    by (auto simp: classify_items_def Let_def split: sum.splits if_splits)
  show ?thesis
  proof
    fix x assume "x \<in> row_id ` set cls"
    then obtain r c where "(r, c) \<in> set (zip (filter (complete_features parse) df) labels)"
      and x: "x = row_id (r\<lparr>row_category := category_mapping c\<rparr>)"
      unfolding cls by auto
    then have "r \<in> set (filter (complete_features parse) df)"
      by (auto dest: set_zip_leftD)
    with x show "x \<in> row_id ` {r \<in> set df. complete_features parse r}" by auto
  qed
qed

text \<open>
  C5. In a table with distinct keys, a classification run changes nothing but
  categories, and only of rows whose seven features are all present and numeric: the
  table keeps its length, every row keeps all its other fields, and a row with a
  missing or unparsable feature is after the run exactly the row it was, category
  included. A run that fails changes nothing at all; a run that succeeds commits.
\<close>

theorem C5_classification_frame:
  assumes "distinct (map row_id (working db))"
    and "classify_items_and_add_category parse ft fp k db = (res, db')"
  shows "length (working db') = length (working db)
       \<and> (\<forall>i < length (working db).
            unchanged_but_category (working db ! i) (working db' ! i)
            \<and> (\<not> complete_features parse (working db ! i) \<longrightarrow> working db' ! i = working db ! i))
       \<and> (res \<noteq> None \<longrightarrow> db' = db)
       \<and> (res = None \<longrightarrow> committed db' = working db')"
proof (cases "classify_items parse ft fp k (working db)")
  case (Inl e)
  with assms(2) have "db' = db" and "res = Some e"
    by (simp_all add: classify_items_and_add_category_def)
  then show ?thesis by (simp add: unchanged_but_category_refl)
next
  case (Inr cls)
  with assms(2) have db': "db' = commit (update_categories cls db)" and res: "res = None"
    by (simp_all add: classify_items_and_add_category_def)
  have w: "working db' = working (update_categories cls db)"
    and c: "committed db' = working db'"
    by (simp_all add: db' commit_def)
  note fr = update_categories_frame [of cls db]
  have inc: "row_id (working db ! i) \<notin> row_id ` set cls"
    if i: "i < length (working db)" and n: "\<not> complete_features parse (working db ! i)" for i
  proof
    assume "row_id (working db ! i) \<in> row_id ` set cls"
    with classify_items_ids [OF Inr] obtain r where r: "r \<in> set (working db)"
      and cr: "complete_features parse r" and id: "row_id r = row_id (working db ! i)"
      by auto
    from i have "working db ! i \<in> set (working db)" by simp
    with r id assms(1) have "r = working db ! i"
      by (meson distinct_map inj_onD)
    with cr n show False by simp
  qed
  from fr inc w c res show ?thesis by simp
qed

theorem C5_classification_frame_witness:
  "distinct (map row_id
     [sample_row 1 ''Burger'' (SqlInt 500), sample_row 2 ''Fries'' SqlNull,
      sample_row 3 ''Cake'' (SqlText ''n/a''), sample_row 4 ''Cola'' (SqlReal 150)])
   \<and> classify_items_and_add_category (\<lambda>s. None) Inr (\<lambda>k seed m. Inr [2, 1]) 3
       \<lparr>committed = [sample_row 1 ''Burger'' (SqlInt 500), sample_row 2 ''Fries'' SqlNull,
                     sample_row 3 ''Cake'' (SqlText ''n/a''), sample_row 4 ''Cola'' (SqlReal 150)],
        working = [sample_row 1 ''Burger'' (SqlInt 500), sample_row 2 ''Fries'' SqlNull,
                   sample_row 3 ''Cake'' (SqlText ''n/a''), sample_row 4 ''Cola'' (SqlReal 150)]\<rparr>
     = (None,
        \<lparr>committed = [(sample_row 1 ''Burger'' (SqlInt 500))\<lparr>row_category := Some ''Main''\<rparr>,
                      sample_row 2 ''Fries'' SqlNull, sample_row 3 ''Cake'' (SqlText ''n/a''),
                      (sample_row 4 ''Cola'' (SqlReal 150))\<lparr>row_category := Some ''Dessert''\<rparr>],
         working = [(sample_row 1 ''Burger'' (SqlInt 500))\<lparr>row_category := Some ''Main''\<rparr>,
                    sample_row 2 ''Fries'' SqlNull, sample_row 3 ''Cake'' (SqlText ''n/a''),
                    (sample_row 4 ''Cola'' (SqlReal 150))\<lparr>row_category := Some ''Dessert''\<rparr>]\<rparr>)
   \<and> \<not> complete_features (\<lambda>s. None) (sample_row 3 ''Cake'' (SqlText ''n/a''))
   \<and> working (snd (classify_items_and_add_category (\<lambda>s. None) Inr (\<lambda>k seed m. Inr [2, 1]) 3
       \<lparr>committed = [sample_row 1 ''Burger'' (SqlInt 500), sample_row 2 ''Fries'' SqlNull,
                     sample_row 3 ''Cake'' (SqlText ''n/a''), sample_row 4 ''Cola'' (SqlReal 150)],
        working = [sample_row 1 ''Burger'' (SqlInt 500), sample_row 2 ''Fries'' SqlNull,
                   sample_row 3 ''Cake'' (SqlText ''n/a''), sample_row 4 ''Cola'' (SqlReal 150)]\<rparr>)) ! 2
       = sample_row 3 ''Cake'' (SqlText ''n/a'')"
proof -
  define rows where "rows = [sample_row 1 ''Burger'' (SqlInt 500), sample_row 2 ''Fries'' SqlNull,
      sample_row 3 ''Cake'' (SqlText ''n/a''), sample_row 4 ''Cola'' (SqlReal 150)]"
  define db where "db = \<lparr>committed = rows, working = rows\<rparr>"
  define parse where "parse = (\<lambda>s::string. None :: real option)"
  define ft where "ft = (Inr :: real list list \<Rightarrow> py_error + real list list)"
  define fp where "fp = (\<lambda>(k::nat) (seed::nat) (m::real list list). Inr [2, 1] :: py_error + nat list)"
  define rows' where "rows' = [(sample_row 1 ''Burger'' (SqlInt 500))\<lparr>row_category := Some ''Main''\<rparr>,
                      sample_row 2 ''Fries'' SqlNull, sample_row 3 ''Cake'' (SqlText ''n/a''),
                      (sample_row 4 ''Cola'' (SqlReal 150))\<lparr>row_category := Some ''Dessert''\<rparr>]"
  have sel: "row_id (sample_row i n c) = i" "row_category (sample_row i n c) = None" for i n c
    by (simp_all add: sample_row_def)
  have cf: "complete_features parse (sample_row i n c) \<longleftrightarrow> pd_to_numeric parse c \<noteq> None" for i n c
    by (simp add: complete_features_def feature_vector_def features_def sample_row_def
        pd_to_numeric_def)
  have dist: "distinct (map row_id (working db))"
    by (simp add: db_def rows_def sel)
  have pn: "pd_to_numeric parse SqlNull = None" "pd_to_numeric parse (SqlText t) = None"
    "pd_to_numeric parse (SqlInt j) = Some (real_of_int j)" "pd_to_numeric parse (SqlReal x) = Some x"
    for t j x
    by (simp_all add: pd_to_numeric_def parse_def)
  have kept: "filter (complete_features parse) rows
                = [sample_row 1 ''Burger'' (SqlInt 500), sample_row 4 ''Cola'' (SqlReal 150)]"
    by (simp add: rows_def cf pn)
  have cls: "classify_items parse ft fp 3 (working db)
               = Inr [(sample_row 1 ''Burger'' (SqlInt 500))\<lparr>row_category := Some ''Main''\<rparr>,
                      (sample_row 4 ''Cola'' (SqlReal 150))\<lparr>row_category := Some ''Dessert''\<rparr>]"
    unfolding classify_items_def Let_def
    by (simp add: db_def kept ft_def fp_def category_mapping_def)
  have run: "classify_items_and_add_category parse ft fp 3 db
               = (None, \<lparr>committed = rows', working = rows'\<rparr>)"
    unfolding classify_items_and_add_category_def cls
    by (simp add: db_def rows_def rows'_def commit_def execute_update_category_def sel)
  have inc: "\<not> complete_features parse (sample_row 3 ''Cake'' (SqlText ''n/a''))"
    by (simp add: cf pn)
  have i: "2 < length (working db)" by (simp add: db_def rows_def)
  have r2: "working db ! 2 = sample_row 3 ''Cake'' (SqlText ''n/a'')"
    by (simp add: db_def rows_def)
  from C5_classification_frame [OF dist run] i inc r2
  have "working \<lparr>committed = rows', working = rows'\<rparr> ! 2 = sample_row 3 ''Cake'' (SqlText ''n/a'')"
    by metis
  with dist run inc show ?thesis
    unfolding db_def rows_def rows'_def parse_def ft_def fp_def by simp
qed


section \<open>Export (C10)\<close>

text \<open>
  C10. For any destination path that is not a directory, the export succeeds and the
  file at that path is afterwards the new one, whatever was there before: its header is
  exactly \<open>item\<close>, \<open>item_gr\<close>, \<open>category\<close>, it has one record per row of the table, in
  order, holding the row's item, translation and category, and no other path changes.
\<close>

theorem C10_export:
  assumes "fs p \<noteq> Some Directory"
  shows "\<exists>fs' a. export_classification_to_csv fs db p = Inr fs'
          \<and> fs' p = Some (File a)
          \<and> header a = [''item'', ''item_gr'', ''category'']
          \<and> length (records a) = length (working db)
          \<and> (\<forall>i < length (working db).
                records a ! i = [Some (row_item (working db ! i)), row_item_gr (working db ! i),
                                 row_category (working db ! i)])
          \<and> (\<forall>q. q \<noteq> p \<longrightarrow> fs' q = fs q)"
  using assms by (simp add: export_classification_to_csv_def Let_def)

theorem C10_export_witness:
  "[default_csv_filename \<mapsto> File \<lparr>header = [''old''], records = []\<rparr>] default_csv_filename
     \<noteq> Some Directory
   \<and> (\<exists>fs' a. export_classification_to_csv
          [default_csv_filename \<mapsto> File \<lparr>header = [''old''], records = []\<rparr>]
          \<lparr>committed = [], working = [(sample_row 1 ''Burger'' SqlNull)\<lparr>row_category := Some ''Main''\<rparr>,
                                      sample_row 2 ''Fries'' SqlNull]\<rparr>
          default_csv_filename = Inr fs'
        \<and> fs' default_csv_filename = Some (File a)
        \<and> header a = [''item'', ''item_gr'', ''category'']
        \<and> records a = [[Some ''Burger'', None, Some ''Main''], [Some ''Fries'', None, None]])"
proof -
  define fs where "fs = [default_csv_filename \<mapsto> File \<lparr>header = [''old''], records = []\<rparr>]"
  define db where "db = \<lparr>committed = [],
      working = [(sample_row 1 ''Burger'' SqlNull)\<lparr>row_category := Some ''Main''\<rparr>,
                 sample_row 2 ''Fries'' SqlNull]\<rparr>"
  have nd: "fs default_csv_filename \<noteq> Some Directory" by (simp add: fs_def)
  from C10_export [of fs default_csv_filename db, OF nd] obtain fs' a where
    run: "export_classification_to_csv fs db default_csv_filename = Inr fs'"
    and fl: "fs' default_csv_filename = Some (File a)"
    and hdr: "header a = [''item'', ''item_gr'', ''category'']"
    and len: "length (records a) = length (working db)"
    and recs: "\<forall>i < length (working db).
                records a ! i = [Some (row_item (working db ! i)), row_item_gr (working db ! i),
                                 row_category (working db ! i)]"
    by blast
  have l2: "length (working db) = 2" by (simp add: db_def)
  from recs l2 have "records a ! 0 = [Some ''Burger'', None, Some ''Main'']"
    and "records a ! 1 = [Some ''Fries'', None, None]"
    by (simp_all add: db_def sample_row_def)
  with len l2 have "records a = [[Some ''Burger'', None, Some ''Main''], [Some ''Fries'', None, None]]"
    by (intro nth_equalityI) (auto simp: less_Suc_eq numeral_2_eq_2)
  with nd run fl hdr show ?thesis
    unfolding fs_def db_def by blast
qed

end
